theory Spec2Isabelle
  imports Main "HOL-Library.Word" "HOL-Library.AList"
begin

unbundle bit_operations_syntax

section \<open>Run-time panics\<close>

text \<open>
  A Go run-time panic ends the operation that raised it. Every operation that can panic
  returns a sum, \<open>Inl\<close> carrying the panic.
\<close>

datatype panic = NilDereference | IndexOutOfRange | PanicMsg string

section \<open>Light server: persistence of the request cost statistics (les/server.go)\<close>

text \<open>
  Go's \<open>math.Float64bits\<close> and \<open>math.Float64frombits\<close> reinterpret the 64 bits of a
  \<open>float64\<close> without changing them. A \<open>float64\<close> is therefore represented here by its
  IEEE-754 bit pattern: the constructor is \<open>Float64frombits\<close>, the selector
  \<open>Float64bits\<close>. No floating point arithmetic is modelled.
\<close>

datatype float64 = Float64frombits (Float64bits: "64 word")

type_synonym byte = "8 word"

text \<open>\<open>binary.BigEndian.PutUint64\<close>: the most significant byte first.\<close>

definition PutUint64 :: "64 word \<Rightarrow> byte list" where
  "PutUint64 v =
     [ucast (drop_bit 56 v), ucast (drop_bit 48 v), ucast (drop_bit 40 v),
      ucast (drop_bit 32 v), ucast (drop_bit 24 v), ucast (drop_bit 16 v),
      ucast (drop_bit 8 v), ucast v]"

text \<open>
  \<open>binary.BigEndian.Uint64\<close> reads \<open>b[0] .. b[7]\<close>; on a slice shorter than eight bytes
  the bounds check panics, which is the value \<open>None\<close>.
\<close>

fun Uint64 :: "byte list \<Rightarrow> 64 word option" where
  "Uint64 (b0 # b1 # b2 # b3 # b4 # b5 # b6 # b7 # rest) =
     Some (ucast b7 OR push_bit 8 (ucast b6) OR push_bit 16 (ucast b5)
       OR push_bit 24 (ucast b4) OR push_bit 32 (ucast b3) OR push_bit 40 (ucast b2)
       OR push_bit 48 (ucast b1) OR push_bit 56 (ucast b0))"
| "Uint64 _ = None"

text \<open>The slice expression \<open>data[lo:hi]\<close> for \<open>lo \<le> hi \<le> len(data)\<close>.\<close>

definition slice :: "'a list \<Rightarrow> nat \<Rightarrow> nat \<Rightarrow> 'a list" where
  "slice xs lo hi = take (hi - lo) (drop lo xs)"

record linReg =
  sumX :: float64
  sumY :: float64
  sumXX :: float64
  sumXY :: float64
  cnt :: "64 word"

definition toBytes :: "linReg \<Rightarrow> byte list" where
  "toBytes l =
     PutUint64 (Float64bits (sumX l)) @ PutUint64 (Float64bits (sumY l)) @
     PutUint64 (Float64bits (sumXX l)) @ PutUint64 (Float64bits (sumXY l)) @
     PutUint64 (cnt l)"

text \<open>
  \<open>linRegFromBytes\<close> returns \<open>nil\<close> (\<open>None\<close>) unless the input has 40 bytes; after
  that test the five slices have eight bytes each, so no read is out of range.
\<close>

definition linRegFromBytes :: "byte list \<Rightarrow> linReg option" where
  "linRegFromBytes data =
     (if length data \<noteq> 40 then None
      else
        case (Uint64 (slice data 0 8), Uint64 (slice data 8 16), Uint64 (slice data 16 24),
              Uint64 (slice data 24 32), Uint64 (slice data 32 40)) of
          (Some x, Some y, Some xx, Some xy, Some c) \<Rightarrow>
            Some \<lparr>sumX = Float64frombits x, sumY = Float64frombits y,
                   sumXX = Float64frombits xx, sumXY = Float64frombits xy, cnt = c\<rparr>
        | _ \<Rightarrow> None)"

section \<open>Light server: the CHT builder (les/server.go)\<close>

text \<open>
  The chain store, the key-value database and the Merkle trie are collaborators of
  \<open>makeCht\<close> whose code is not part of the sources; they are modelled by their
  interfaces. A \<open>common.Hash\<close> is a byte string; the zero hash is 32 zero bytes.
  The content of a trie is the map from its keys to its values. The node database
  \<open>trieNodes\<close> holds, for every committed root, the trie it resolves to.
\<close>

type_synonym hash = "byte list"
type_synonym trie = "byte list \<rightharpoonup> byte list"

definition zeroHash :: hash where
  "zeroHash = replicate 32 0"

definition BytesToHash :: "byte list \<Rightarrow> hash" where
  "BytesToHash b = (let b' = drop (length b - 32) b in replicate (32 - length b') 0 @ b')"

text \<open>
  Modelled from the spec: the chain store (\<open>GetHeadBlockHash\<close>, \<open>GetBlockNumber\<close>,
  \<open>GetCanonicalHash\<close>, which returns the zero hash for a missing block, and \<open>GetTd\<close>,
  which returns \<open>nil\<close> for a missing total difficulty), the raw \<open>Get\<close>/\<open>Put\<close> of
  the database (\<open>kv\<close>) and the trie nodes reachable in it.
\<close>

record chainDb =
  headBlockHash :: hash
  blockNumber :: "hash \<Rightarrow> 64 word"
  canonicalHash :: "64 word \<Rightarrow> hash"
  totalDifficulty :: "hash \<Rightarrow> 64 word \<Rightarrow> int option"
  kv :: "byte list \<rightharpoonup> byte list"
  trieNodes :: "hash \<rightharpoonup> trie"

text \<open>
  What \<open>makeCht\<close> takes from outside the sources: the constant
  \<open>light.ChtFrequency\<close>, the Merkle root of a trie content, the RLP encoding of a
  \<open>light.ChtNode\<close> (hash and total difficulty), and whether \<open>Commit\<close> reports an
  error.
\<close>

record chtEnv =
  ChtFrequency :: "64 word"
  rootHash :: "trie \<Rightarrow> hash"
  encodeNode :: "hash \<Rightarrow> int \<Rightarrow> byte list"
  commitFails :: bool

definition bytesOf :: "string \<Rightarrow> byte list" where
  "bytesOf s = map of_char s"

definition lastChtKey :: "byte list" where
  "lastChtKey = bytesOf ''LastChtNumber''"

definition chtPrefix :: "byte list" where
  "chtPrefix = bytesOf ''cht''"

definition chtConfirmations :: "chtEnv \<Rightarrow> 64 word" where
  "chtConfirmations env = ChtFrequency env div 2"

text \<open>
  Modelled from the spec: the Merkle trie. \<open>trie.New\<close> opens the empty trie for the
  zero hash and otherwise resolves the root in the database, failing (\<open>None\<close>) when it
  is missing; \<open>Update\<close> with an empty value deletes the key.
\<close>

definition trieNew :: "hash \<Rightarrow> chainDb \<Rightarrow> trie option" where
  "trieNew root db =
     (if root = zeroHash then Some Map.empty else trieNodes db root)"

definition trieUpdate :: "trie \<Rightarrow> byte list \<Rightarrow> byte list \<Rightarrow> trie" where
  "trieUpdate t key val = (if val = [] then t(key := None) else t(key \<mapsto> val))"

definition getChtRoot :: "chainDb \<Rightarrow> 64 word \<Rightarrow> hash" where
  "getChtRoot db num =
     BytesToHash (case kv db (chtPrefix @ PutUint64 num) of None \<Rightarrow> [] | Some d \<Rightarrow> d)"

definition storeChtRoot :: "chainDb \<Rightarrow> 64 word \<Rightarrow> hash \<Rightarrow> chainDb" where
  "storeChtRoot db num root = db\<lparr>kv := (kv db)(chtPrefix @ PutUint64 num \<mapsto> root)\<rparr>"

text \<open>
  The loop \<open>for num := lastChtNum*F; num < (lastChtNum+1)*F; num++\<close> of \<open>makeCht\<close>,
  on 64-bit words as in the source.
\<close>

function chtInsertRange :: "chtEnv \<Rightarrow> chainDb \<Rightarrow> 64 word \<Rightarrow> 64 word \<Rightarrow> trie \<Rightarrow> panic + trie" where
  "chtInsertRange env db num hi t =
     (if num < hi then
        (let hash = canonicalHash db num in
         if hash = zeroHash then Inl (PanicMsg ''Canonical hash not found'')
         else case totalDifficulty db hash num of
           None \<Rightarrow> Inl (PanicMsg ''TD not found'')
         | Some td \<Rightarrow>
             chtInsertRange env db (num + 1) hi
               (trieUpdate t (PutUint64 num) (encodeNode env hash td)))
      else Inr t)"
  by pat_completeness auto
termination
proof (relation "measure (\<lambda>(env, db, num, hi, t). unat hi - unat num)")
  show "wf (measure (\<lambda>(env, db, num, hi, t). unat hi - unat num))" by simp
next
  fix env :: chtEnv and db :: chainDb and num hi :: "64 word" and t :: trie and x xa x2
  assume lt: "num < hi"
  have "unat (num + 1) = Suc (unat num)"
    using lt unsigned_less [of hi, where ?'a = nat] by (simp add: word_less_nat_alt unat_word_ariths)
  with lt show "((env, db, num + 1, hi, trieUpdate t (PutUint64 num) (encodeNode env x xa)), (env, db, num, hi, t)) \<in> measure (\<lambda>(env, db, num, hi, t). unat hi - unat num)"
    by (simp add: word_less_nat_alt)
qed

declare chtInsertRange.simps [simp del]

definition newChtNumOf :: "chtEnv \<Rightarrow> 64 word \<Rightarrow> 64 word" where
  "newChtNumOf env headNum =
     (if headNum > chtConfirmations env
      then (headNum - chtConfirmations env) div ChtFrequency env else 0)"

definition readLastChtNum :: "chainDb \<Rightarrow> 64 word" where
  "readLastChtNum db =
     (case kv db lastChtKey of
        None \<Rightarrow> 0
      | Some data \<Rightarrow>
          if length data = 8 then (case Uint64 data of Some v \<Rightarrow> v | None \<Rightarrow> 0) else 0)"

text \<open>
  The trie the build starts from and the value of \<open>lastChtNum\<close> after opening it:
  the trie of the last root when \<open>lastChtNum > 0\<close> and that root resolves, and the
  empty trie with \<open>lastChtNum = 0\<close> otherwise.
\<close>

definition openChtTrie :: "chainDb \<Rightarrow> 64 word \<Rightarrow> trie \<times> 64 word" where
  "openChtTrie db lastChtNum =
     (if lastChtNum > 0 then
        (case trieNew (getChtRoot db lastChtNum) db of
           Some t \<Rightarrow> (t, lastChtNum)
         | None \<Rightarrow> (Map.empty, 0))
      else (Map.empty, 0))"

text \<open>
  \<open>Commit\<close> and what follows it: on an error \<open>lastChtNum\<close> is reset to 0 and nothing
  is stored; otherwise the root is stored under \<open>chtPrefix || uint64_be(lastChtNum + 1)\<close>
  and \<open>lastChtKey\<close> is updated. The boolean is the result \<open>newChtNum > lastChtNum\<close>.
\<close>

definition commitCht :: "chtEnv \<Rightarrow> chainDb \<Rightarrow> trie \<Rightarrow> 64 word \<Rightarrow> 64 word \<Rightarrow> chainDb \<times> bool" where
  "commitCht env db t lastChtNum newChtNum =
     (if commitFails env then (db, newChtNum > 0)
      else
        let root = rootHash env t;
            db1 = db\<lparr>trieNodes := (trieNodes db)(root \<mapsto> t)\<rparr>;
            lastChtNum' = lastChtNum + 1;
            db2 = storeChtRoot db1 lastChtNum' root;
            db3 = db2\<lparr>kv := (kv db2)(lastChtKey \<mapsto> PutUint64 lastChtNum')\<rparr>
        in (db3, newChtNum > lastChtNum'))"

definition makeCht :: "chtEnv \<Rightarrow> chainDb \<Rightarrow> panic + (chainDb \<times> bool)" where
  "makeCht env db =
     (let headHash = headBlockHash db;
          headNum = blockNumber db headHash;
          newChtNum = newChtNumOf env headNum;
          lastChtNum0 = readLastChtNum db
      in if newChtNum \<le> lastChtNum0 then Inr (db, False)
         else
           let (t, lastChtNum) = openChtTrie db lastChtNum0
           in case chtInsertRange env db (lastChtNum * ChtFrequency env)
                     ((lastChtNum + 1) * ChtFrequency env) t of
                Inl e \<Rightarrow> Inl e
              | Inr t' \<Rightarrow> Inr (commitCht env db t' lastChtNum newChtNum))"



definition cht_trie_ex :: trie where
  "cht_trie_ex = [PutUint64 0 \<mapsto> 224 # PutUint64 1, PutUint64 1 \<mapsto> 224 # PutUint64 2,
            PutUint64 2 \<mapsto> 224 # PutUint64 3, PutUint64 3 \<mapsto> 224 # PutUint64 4]"


text \<open>
  A second example, where a CHT has been built before: the same chain with head block 10,
  the root of the first trie stored as CHT number 1 and resolving to that trie. The root
  of a trie is a 32-byte string here that tells the first trie from its successor.
\<close>

definition cht_hash_ex :: "trie \<Rightarrow> hash" where
  "cht_hash_ex t = replicate 31 0 @ [if t (PutUint64 4) = None then 1 else 2]"

definition cht_env_chain_ex :: chtEnv where
  "cht_env_chain_ex = \<lparr>ChtFrequency = 4,
      rootHash = cht_hash_ex,
      encodeNode = (\<lambda>h td. 224 # h),
      commitFails = False\<rparr>"


definition cht_trie_chain_ex :: trie where
  "cht_trie_chain_ex =
     cht_trie_ex(PutUint64 4 \<mapsto> 224 # PutUint64 5, PutUint64 5 \<mapsto> 224 # PutUint64 6,
                 PutUint64 6 \<mapsto> 224 # PutUint64 7, PutUint64 7 \<mapsto> 224 # PutUint64 8)"

text \<open>
  A third example: CHT number 2 is persisted with a root whose trie is not in the
  database, and the head block is 14.
\<close>

definition cht_db_lost_ex :: chainDb where
  "cht_db_lost_ex = \<lparr>headBlockHash = PutUint64 15,
      blockNumber = (\<lambda>h. 14),
      canonicalHash = (\<lambda>n. PutUint64 (n + 1)),
      totalDifficulty = (\<lambda>h n. Some (uint n + 1)),
      kv = [lastChtKey \<mapsto> PutUint64 2, chtPrefix @ PutUint64 2 \<mapsto> cht_hash_ex cht_trie_chain_ex],
      trieNodes = Map.empty\<rparr>"

section \<open>Outcomes of an operation of the discovery tables\<close>

text \<open>
  An operation of the topic table or of the ticket store returns (\<open>Ok\<close>), panics, or
  never returns (\<open>Hang\<close>: a loop of the source that does not end).
\<close>

datatype 'a result = Ok 'a | Panic panic | Hang

fun thenR :: "'a result \<Rightarrow> ('a \<Rightarrow> 'b result) \<Rightarrow> 'b result" where
  "thenR (Ok x) f = f x"
| "thenR (Panic e) f = Panic e"
| "thenR Hang f = Hang"

text \<open>Go's integer division truncates towards zero.\<close>

definition quo :: "int \<Rightarrow> int \<Rightarrow> int" where
  "quo a b = sgn a * sgn b * (\<bar>a\<bar> div \<bar>b\<bar>)"

section \<open>Topic table (p2p/discover/topic.go)\<close>

definition MaxEntries :: "64 word" where
  "MaxEntries = 10000"

definition MaxEntriesPerTopic :: nat where
  "MaxEntriesPerTopic = 50"

definition gcInterval :: "64 word" where
  "gcInterval = 60000000000"

definition minWaitPeriod :: "64 word" where
  "minWaitPeriod = 60000000000"

definition regTimeWindow :: int where
  "regTimeWindow = 10"

type_synonym Topic = string

text \<open>
  A \<open>*Node\<close>: the address of the node record, the \<open>ID\<close> stored in it, and
  \<open>binary.BigEndian.Uint64(sha[0:8])\<close> of its \<open>sha\<close>. The maps of the tables are
  keyed by the pointer, the node database by the \<open>ID\<close>.
\<close>

datatype Node = Node (addr: nat) (ID: nat) (shaPrefix: "64 word")

record topicEntry =
  topic :: Topic
  fifoIdx :: "64 word"
  node :: Node
  expire :: "64 word"

record waitControlLoop =
  lastIncoming :: "64 word"
  waitPeriod :: "64 word"

record topicRequestQueueItem =
  topic_rq :: Topic
  priority :: "64 word"
  index :: int

text \<open>
  Go maps are association lists with distinct keys; a \<open>range\<close> loop visits the keys in
  the order of the list (Go leaves the order open). \<open>rqItem\<close> is the address of the
  queue item of the topic.
\<close>

record topicInfo =
  entries :: "(64 word \<times> topicEntry) list"
  fifoHead :: "64 word"
  fifoTail :: "64 word"
  rqItem :: nat
  wcl :: waitControlLoop

record nodeInfo =
  entries_n :: "(Topic \<times> topicEntry) list"
  noTicketUntil :: "64 word"
  lastIssuedTicket :: "32 word"
  lastUsedTicket :: "32 word"

text \<open>
  The table with the objects it points to: \<open>nodes\<close> and \<open>topics\<close> map to addresses of
  \<open>nodeInfo\<close> and \<open>topicInfo\<close> objects, \<open>requested\<close> is the slice of addresses of queue
  items, and \<open>nodeInfos\<close>, \<open>topicInfos\<close>, \<open>rqItems\<close> are the heap. An object removed
  from \<open>nodes\<close> or \<open>topics\<close> stays in the heap, as it does in Go while a local variable
  still points to it.

  Modelled from the spec: the node database adapter. \<open>db\<close> gives for a node \<open>ID\<close> the
  pair \<open>fetchTopicRegTickets\<close> returns (issued, used); \<open>updateTopicRegTickets\<close>
  overwrites it.
\<close>

record TopicTable =
  db :: "nat \<Rightarrow> 32 word \<times> 32 word"
  nodes :: "(Node \<times> nat) list"
  topics :: "(Topic \<times> nat) list"
  globalEntries :: "64 word"
  requested :: "nat list"
  requestCnt :: "64 word"
  lastGarbageCollection :: "64 word"
  nodeInfos :: "nat \<rightharpoonup> nodeInfo"
  topicInfos :: "nat \<rightharpoonup> topicInfo"
  rqItems :: "nat \<rightharpoonup> topicRequestQueueItem"
  nextAddr :: nat

text \<open>
  What one call takes from outside: the value of the monotonic clock
  (\<open>atime.NanoTime()\<close>; every read during one call gives the same value), the draw of
  \<open>noTicketTimeout()\<close>, and the floating point step of \<open>nextWaitPeriod\<close>:
  \<open>scaledWait w waitPeriod period\<close> stands for
  \<open>uint64(float64(waitPeriod) * math.Exp((float64(wcTargetRegInterval) - float64(period)) / float64(wcTimeConst)))\<close>.
\<close>

record world =
  NanoTime :: "64 word"
  noTicketTimeout :: "64 word"
  scaledWait :: "64 word \<Rightarrow> 64 word \<Rightarrow> 64 word"

definition NewTopicTable :: "(nat \<Rightarrow> 32 word \<times> 32 word) \<Rightarrow> TopicTable" where
  "NewTopicTable d =
     \<lparr>db = d, nodes = [], topics = [], globalEntries = 0, requested = [], requestCnt = 0,
      lastGarbageCollection = 0, nodeInfos = Map.empty, topicInfos = Map.empty,
      rqItems = Map.empty, nextAddr = 0\<rparr>"

definition derefN :: "TopicTable \<Rightarrow> nat \<Rightarrow> nodeInfo result" where
  "derefN s a = (case nodeInfos s a of None \<Rightarrow> Panic NilDereference | Some n \<Rightarrow> Ok n)"

definition derefT :: "TopicTable \<Rightarrow> nat \<Rightarrow> topicInfo result" where
  "derefT s a = (case topicInfos s a of None \<Rightarrow> Panic NilDereference | Some ti \<Rightarrow> Ok ti)"

definition derefQ :: "TopicTable \<Rightarrow> nat \<Rightarrow> topicRequestQueueItem result" where
  "derefQ s a = (case rqItems s a of None \<Rightarrow> Panic NilDereference | Some q \<Rightarrow> Ok q)"

subsection \<open>The request queue: \<open>topicRequestQueue\<close> under \<open>container/heap\<close>\<close>

definition Len :: "TopicTable \<Rightarrow> int" where
  "Len s = int (length (requested s))"

text \<open>The index expression \<open>tq[i]\<close>, with its bounds check.\<close>

definition tq_at :: "TopicTable \<Rightarrow> int \<Rightarrow> nat result" where
  "tq_at s i = (if 0 \<le> i \<and> i < Len s then Ok (requested s ! nat i) else Panic IndexOutOfRange)"

definition Less :: "TopicTable \<Rightarrow> int \<Rightarrow> int \<Rightarrow> bool result" where
  "Less s i j =
     thenR (tq_at s i) (\<lambda>a. thenR (derefQ s a) (\<lambda>x.
     thenR (tq_at s j) (\<lambda>b. thenR (derefQ s b) (\<lambda>y.
     Ok (priority x < priority y)))))"

definition Swap :: "TopicTable \<Rightarrow> int \<Rightarrow> int \<Rightarrow> TopicTable result" where
  "Swap s i j =
     thenR (tq_at s i) (\<lambda>a. thenR (tq_at s j) (\<lambda>b.
     let s1 = s\<lparr>requested := (requested s)[nat i := b, nat j := a]\<rparr> in
     thenR (tq_at s1 i) (\<lambda>x. thenR (derefQ s1 x) (\<lambda>qx.
     let s2 = s1\<lparr>rqItems := (rqItems s1)(x \<mapsto> qx\<lparr>index := i\<rparr>)\<rparr> in
     thenR (tq_at s2 j) (\<lambda>y. thenR (derefQ s2 y) (\<lambda>qy.
     Ok (s2\<lparr>rqItems := (rqItems s2)(y \<mapsto> qy\<lparr>index := j\<rparr>)\<rparr>)))))))"

text \<open>
  \<open>up\<close> and \<open>down\<close> of \<open>container/heap\<close> (the Go standard library, as of Go 1.10 and
  later). The loops are partial functions: \<open>None\<close> is a loop that does not end.
\<close>

partial_function (option) up_loop :: "TopicTable \<Rightarrow> int \<Rightarrow> TopicTable result option" where
  "up_loop s j =
     (let i = quo (j - 1) 2 in
      if i = j then Some (Ok s)
      else case Less s j i of
        Panic e \<Rightarrow> Some (Panic e)
      | Hang \<Rightarrow> Some Hang
      | Ok b \<Rightarrow>
          if \<not> b then Some (Ok s)
          else case Swap s i j of
            Panic e \<Rightarrow> Some (Panic e)
          | Hang \<Rightarrow> Some Hang
          | Ok s' \<Rightarrow> up_loop s' i)"

definition up :: "TopicTable \<Rightarrow> int \<Rightarrow> TopicTable result" where
  "up s j = (case up_loop s j of None \<Rightarrow> Hang | Some r \<Rightarrow> r)"

partial_function (option) down_loop ::
  "TopicTable \<Rightarrow> int \<Rightarrow> int \<Rightarrow> (int \<times> TopicTable) result option" where
  "down_loop s i n =
     (let j1 = 2 * i + 1 in
      if j1 \<ge> n \<or> j1 < 0 then Some (Ok (i, s))
      else case (if j1 + 1 < n then Less s (j1 + 1) j1 else Ok False) of
        Panic e \<Rightarrow> Some (Panic e)
      | Hang \<Rightarrow> Some Hang
      | Ok r \<Rightarrow>
          (let j = (if r then j1 + 1 else j1) in
           case Less s j i of
             Panic e \<Rightarrow> Some (Panic e)
           | Hang \<Rightarrow> Some Hang
           | Ok b \<Rightarrow>
               if \<not> b then Some (Ok (i, s))
               else case Swap s i j of
                 Panic e \<Rightarrow> Some (Panic e)
               | Hang \<Rightarrow> Some Hang
               | Ok s' \<Rightarrow> down_loop s' j n))"

text \<open>\<open>down\<close> returns whether the element moved (\<open>i > i0\<close>).\<close>

definition down :: "TopicTable \<Rightarrow> int \<Rightarrow> int \<Rightarrow> (bool \<times> TopicTable) result" where
  "down s i0 n =
     (case down_loop s i0 n of
        None \<Rightarrow> Hang
      | Some r \<Rightarrow> thenR r (\<lambda>(i, s'). Ok (i > i0, s')))"

text \<open>The methods \<open>Push\<close> and \<open>Pop\<close> of \<open>topicRequestQueue\<close>.\<close>

definition tq_Push :: "TopicTable \<Rightarrow> nat \<Rightarrow> TopicTable result" where
  "tq_Push s a =
     thenR (derefQ s a) (\<lambda>q.
     Ok (s\<lparr>rqItems := (rqItems s)(a \<mapsto> q\<lparr>index := Len s\<rparr>),
           requested := requested s @ [a]\<rparr>))"

definition tq_Pop :: "TopicTable \<Rightarrow> TopicTable result" where
  "tq_Pop s =
     (let n = Len s in
      thenR (tq_at s (n - 1)) (\<lambda>a. thenR (derefQ s a) (\<lambda>q.
      Ok (s\<lparr>rqItems := (rqItems s)(a \<mapsto> q\<lparr>index := - 1\<rparr>),
            requested := take (nat (n - 1)) (requested s)\<rparr>))))"

text \<open>
  \<open>heap.Push\<close>, \<open>heap.Pop\<close>, \<open>heap.Remove\<close> and \<open>heap.Fix\<close>; the element they return is
  not used by the table and is left out.
\<close>

definition heap_Push :: "TopicTable \<Rightarrow> nat \<Rightarrow> TopicTable result" where
  "heap_Push s a = thenR (tq_Push s a) (\<lambda>s1. up s1 (Len s1 - 1))"

definition heap_Pop :: "TopicTable \<Rightarrow> TopicTable result" where
  "heap_Pop s =
     (let n = Len s - 1 in
      thenR (Swap s 0 n) (\<lambda>s1. thenR (down s1 0 n) (\<lambda>(moved, s2). tq_Pop s2)))"

definition heap_Remove :: "TopicTable \<Rightarrow> int \<Rightarrow> TopicTable result" where
  "heap_Remove s i =
     (let n = Len s - 1 in
      thenR (if n \<noteq> i
             then thenR (Swap s i n) (\<lambda>s1. thenR (down s1 i n) (\<lambda>(moved, s2).
                    if \<not> moved then up s2 i else Ok s2))
             else Ok s)
        (\<lambda>s3. tq_Pop s3))"

definition heap_Fix :: "TopicTable \<Rightarrow> int \<Rightarrow> TopicTable result" where
  "heap_Fix s i =
     thenR (down s i (Len s)) (\<lambda>(moved, s1). if \<not> moved then up s1 i else Ok s1)"

text \<open>\<open>topicRequestQueue.update\<close>.\<close>

definition tq_update :: "TopicTable \<Rightarrow> nat \<Rightarrow> 64 word \<Rightarrow> TopicTable result" where
  "tq_update s a p =
     thenR (derefQ s a) (\<lambda>q.
     let s1 = s\<lparr>rqItems := (rqItems s)(a \<mapsto> q\<lparr>priority := p\<rparr>)\<rparr> in
     thenR (derefQ s1 a) (\<lambda>q1. heap_Fix s1 (index q1)))"

subsection \<open>The wait control loop\<close>

definition nextWaitPeriod :: "world \<Rightarrow> waitControlLoop \<Rightarrow> 64 word \<Rightarrow> 64 word" where
  "nextWaitPeriod w wc tm =
     (let period = tm - lastIncoming wc;
          wp = scaledWait w (waitPeriod wc) period
      in if wp < minWaitPeriod then minWaitPeriod else wp)"

definition registered :: "world \<Rightarrow> waitControlLoop \<Rightarrow> 64 word \<Rightarrow> waitControlLoop" where
  "registered w wc tm = \<lparr>lastIncoming = tm, waitPeriod = nextWaitPeriod w wc tm\<rparr>"

definition hasMinimumWaitPeriod :: "world \<Rightarrow> waitControlLoop \<Rightarrow> bool" where
  "hasMinimumWaitPeriod w wc = (nextWaitPeriod w wc (NanoTime w) = minWaitPeriod)"

subsection \<open>Nodes and topics of the table\<close>

definition getOrNewTopic :: "Topic \<Rightarrow> TopicTable \<Rightarrow> (nat \<times> TopicTable) result" where
  "getOrNewTopic tp s =
     (case map_of (topics s) tp of
        Some a \<Rightarrow> Ok (a, s)
      | None \<Rightarrow>
          (let r = nextAddr s;
               a = nextAddr s + 1;
               q = \<lparr>topic_rq = tp, priority = requestCnt s, index = 0\<rparr>;
               ti = \<lparr>entries = [], fifoHead = 0, fifoTail = 0, rqItem = r,
                     wcl = \<lparr>lastIncoming = 0, waitPeriod = 0\<rparr>\<rparr>;
               s1 = s\<lparr>rqItems := (rqItems s)(r \<mapsto> q),
                      topicInfos := (topicInfos s)(a \<mapsto> ti),
                      topics := AList.update tp a (topics s),
                      nextAddr := nextAddr s + 2\<rparr>
           in thenR (heap_Push s1 r) (\<lambda>s2. Ok (a, s2))))"

text \<open>This function assumes that topic is in the topics table.\<close>

definition checkDeleteTopic :: "world \<Rightarrow> Topic \<Rightarrow> TopicTable \<Rightarrow> TopicTable result" where
  "checkDeleteTopic w tp s =
     (case map_of (topics s) tp of
        None \<Rightarrow> Panic NilDereference
      | Some a \<Rightarrow>
          thenR (derefT s a) (\<lambda>ti.
          if length (entries ti) = 0 \<and> hasMinimumWaitPeriod w (wcl ti)
          then Ok (s\<lparr>topics := AList.delete tp (topics s)\<rparr>)
          else Ok s))"

definition getOrNewNode :: "Node \<Rightarrow> TopicTable \<Rightarrow> nat \<times> TopicTable" where
  "getOrNewNode nd s =
     (case map_of (nodes s) nd of
        Some a \<Rightarrow> (a, s)
      | None \<Rightarrow>
          (let (issued, used) = db s (ID nd);
               a = nextAddr s;
               n = \<lparr>entries_n = [], noTicketUntil = 0,
                    lastIssuedTicket = issued, lastUsedTicket = used\<rparr>
           in (a, s\<lparr>nodeInfos := (nodeInfos s)(a \<mapsto> n),
                    nodes := AList.update nd a (nodes s),
                    nextAddr := nextAddr s + 1\<rparr>)))"

text \<open>This function assumes that node is in the nodes table.\<close>

definition checkDeleteNode :: "world \<Rightarrow> Node \<Rightarrow> TopicTable \<Rightarrow> TopicTable result" where
  "checkDeleteNode w nd s =
     (case map_of (nodes s) nd of
        None \<Rightarrow> Panic NilDereference
      | Some a \<Rightarrow>
          thenR (derefN s a) (\<lambda>n.
          if length (entries_n n) = 0 \<and> noTicketUntil n < NanoTime w
          then Ok (s\<lparr>nodes := AList.delete nd (nodes s)\<rparr>)
          else Ok s))"

definition storeTicket :: "Node \<Rightarrow> TopicTable \<Rightarrow> TopicTable result" where
  "storeTicket nd s =
     (let (a, s1) = getOrNewNode nd s in
      thenR (derefN s1 a) (\<lambda>n.
      Ok (s1\<lparr>db := (db s1)(ID nd := (lastIssuedTicket n, lastUsedTicket n))\<rparr>)))"

subsection \<open>Entries\<close>

text \<open>
  \<open>getFifoTail\<close>: the scan \<open>for t.entries[t.fifoTail] == nil { t.fifoTail++ }\<close> does not
  end when the topic has no entry.
\<close>

partial_function (option) fifoScan :: "(64 word \<times> topicEntry) list \<Rightarrow> 64 word \<Rightarrow> 64 word option" where
  "fifoScan es tail = (if map_of es tail = None then fifoScan es (tail + 1) else Some tail)"

definition getFifoTail :: "nat \<Rightarrow> TopicTable \<Rightarrow> (topicEntry option \<times> TopicTable) result" where
  "getFifoTail ta s =
     thenR (derefT s ta) (\<lambda>ti.
     case fifoScan (entries ti) (fifoTail ti) of
       None \<Rightarrow> Hang
     | Some k \<Rightarrow>
         Ok (map_of (entries ti) k,
             s\<lparr>topicInfos := (topicInfos s)(ta \<mapsto> ti\<lparr>fifoTail := k + 1\<rparr>)\<rparr>))"

text \<open>entry should exist. The argument is a pointer: \<open>None\<close> is \<open>nil\<close>.\<close>

definition deleteEntry :: "world \<Rightarrow> topicEntry option \<Rightarrow> TopicTable \<Rightarrow> TopicTable result" where
  "deleteEntry w eo s =
     (case eo of
        None \<Rightarrow> Panic NilDereference
      | Some e \<Rightarrow>
         (case map_of (nodes s) (node e) of
            None \<Rightarrow> Panic NilDereference
          | Some na \<Rightarrow>
              thenR (derefN s na) (\<lambda>n.
              let ne = AList.delete (topic e) (entries_n n);
                  s1 = s\<lparr>nodeInfos := (nodeInfos s)(na \<mapsto> n\<lparr>entries_n := ne\<rparr>)\<rparr>
              in
              thenR (if length ne = 0 then checkDeleteNode w (node e) s1 else Ok s1) (\<lambda>s2.
              case map_of (topics s2) (topic e) of
                None \<Rightarrow> Panic NilDereference
              | Some ta \<Rightarrow>
                  thenR (derefT s2 ta) (\<lambda>te.
                  let es = AList.delete (fifoIdx e) (entries te);
                      s3 = s2\<lparr>topicInfos := (topicInfos s2)(ta \<mapsto> te\<lparr>entries := es\<rparr>)\<rparr>
                  in
                  thenR (if length es = 0
                         then thenR (checkDeleteTopic w (topic e) s3) (\<lambda>s4.
                              thenR (derefQ s4 (rqItem te)) (\<lambda>q. heap_Remove s4 (index q)))
                         else Ok s3) (\<lambda>s5.
                  Ok (s5\<lparr>globalEntries := globalEntries s5 - 1\<rparr>)))))))"

text \<open>
  \<open>leastRequested\<close>: removes least requested element from the fifo. The first loop pops
  the queue items whose topic is gone.
\<close>

partial_function (option) leastRequested_pop :: "TopicTable \<Rightarrow> TopicTable result option" where
  "leastRequested_pop s =
     (if Len s > 0 then
        (case thenR (tq_at s 0) (derefQ s) of
           Panic e \<Rightarrow> Some (Panic e)
         | Hang \<Rightarrow> Some Hang
         | Ok q \<Rightarrow>
             if map_of (topics s) (topic_rq q) = None
             then (case heap_Pop s of
                     Panic e \<Rightarrow> Some (Panic e)
                   | Hang \<Rightarrow> Some Hang
                   | Ok s' \<Rightarrow> leastRequested_pop s')
             else Some (Ok s))
      else Some (Ok s))"

definition leastRequested :: "TopicTable \<Rightarrow> (topicEntry option \<times> TopicTable) result" where
  "leastRequested s =
     (case leastRequested_pop s of
        None \<Rightarrow> Hang
      | Some r \<Rightarrow>
          thenR r (\<lambda>s1.
          if Len s1 = 0 then Ok (None, s1)
          else thenR (tq_at s1 0) (\<lambda>a. thenR (derefQ s1 a) (\<lambda>q.
               case map_of (topics s1) (topic_rq q) of
                 None \<Rightarrow> Panic NilDereference
               | Some ta \<Rightarrow> getFifoTail ta s1))))"

text \<open>
  \<open>for _, e := range n.entries { t.deleteEntry(e) }\<close> where \<open>n\<close> is the object at address
  \<open>na\<close>: the keys are those the map had when the loop started; a key deleted before the
  loop reaches it is skipped.
\<close>

fun clearEntries :: "world \<Rightarrow> nat \<Rightarrow> Topic list \<Rightarrow> TopicTable \<Rightarrow> TopicTable result" where
  "clearEntries w na [] s = Ok s"
| "clearEntries w na (k # ks) s =
     thenR (derefN s na) (\<lambda>n.
     case map_of (entries_n n) k of
       None \<Rightarrow> clearEntries w na ks s
     | Some e \<Rightarrow> thenR (deleteEntry w (Some e) s) (\<lambda>s'. clearEntries w na ks s'))"

text \<open>The body of the loop over \<open>topics\<close> in \<open>AddEntries\<close>; \<open>na\<close> is the pointer \<open>n\<close>.\<close>

definition addEntry ::
  "world \<Rightarrow> Node \<Rightarrow> nat \<Rightarrow> 64 word \<Rightarrow> 64 word \<Rightarrow> Topic \<Rightarrow> TopicTable \<Rightarrow> TopicTable result" where
  "addEntry w nd na expiry tm tp s =
     thenR (getOrNewTopic tp s) (\<lambda>(ta, s1).
     thenR (derefT s1 ta) (\<lambda>te.
     thenR (if length (entries te) = MaxEntriesPerTopic
            then thenR (getFifoTail ta s1) (\<lambda>(e, s2). deleteEntry w e s2)
            else Ok s1) (\<lambda>s3.
     thenR (if globalEntries s3 = MaxEntries
            then thenR (leastRequested s3) (\<lambda>(e, s4). deleteEntry w e s4)
            else Ok s3) (\<lambda>s5.
     thenR (derefT s5 ta) (\<lambda>te5.
     thenR (derefN s5 na) (\<lambda>n.
     let idx = fifoHead te5;
         entry = \<lparr>topic = tp, fifoIdx = idx, node = nd, expire = tm + expiry\<rparr>;
         te6 = te5\<lparr>fifoHead := fifoHead te5 + 1,
                   entries := AList.update idx entry (entries te5)\<rparr>;
         n6 = n\<lparr>entries_n := AList.update tp entry (entries_n n)\<rparr>;
         te7 = te6\<lparr>wcl := registered w (wcl te6) tm\<rparr>
     in Ok (s5\<lparr>topicInfos := (topicInfos s5)(ta \<mapsto> te7),
               nodeInfos := (nodeInfos s5)(na \<mapsto> n6),
               globalEntries := globalEntries s5 + 1\<rparr>)))))))"

fun addEntries ::
  "world \<Rightarrow> Node \<Rightarrow> nat \<Rightarrow> 64 word \<Rightarrow> 64 word \<Rightarrow> Topic list \<Rightarrow> TopicTable \<Rightarrow> TopicTable result" where
  "addEntries w nd na expiry tm [] s = Ok s"
| "addEntries w nd na expiry tm (tp # tps) s =
     thenR (addEntry w nd na expiry tm tp s) (addEntries w nd na expiry tm tps)"

text \<open>\<open>expiry\<close> is \<open>uint64(expiry)\<close>, the bits of the \<open>time.Duration\<close>.\<close>

definition AddEntries :: "world \<Rightarrow> Node \<Rightarrow> Topic list \<Rightarrow> 64 word \<Rightarrow> TopicTable \<Rightarrow> TopicTable result" where
  "AddEntries w nd tps expiry s =
     (let (na, s1) = getOrNewNode nd s in
      thenR (derefN s1 na) (\<lambda>n.
      thenR (clearEntries w na (map fst (entries_n n)) s1) (\<lambda>s2.
      addEntries w nd na expiry (NanoTime w) tps s2)))"

subsection \<open>Garbage collection\<close>

fun gcEntries :: "world \<Rightarrow> 64 word \<Rightarrow> nat \<Rightarrow> Topic list \<Rightarrow> TopicTable \<Rightarrow> TopicTable result" where
  "gcEntries w tm na [] s = Ok s"
| "gcEntries w tm na (k # ks) s =
     thenR (derefN s na) (\<lambda>n.
     case map_of (entries_n n) k of
       None \<Rightarrow> gcEntries w tm na ks s
     | Some e \<Rightarrow>
         if expire e \<le> tm
         then thenR (deleteEntry w (Some e) s) (\<lambda>s'. gcEntries w tm na ks s')
         else gcEntries w tm na ks s)"

fun gcNodes :: "world \<Rightarrow> 64 word \<Rightarrow> Node list \<Rightarrow> TopicTable \<Rightarrow> TopicTable result" where
  "gcNodes w tm [] s = Ok s"
| "gcNodes w tm (nd # nds) s =
     (case map_of (nodes s) nd of
        None \<Rightarrow> gcNodes w tm nds s
      | Some na \<Rightarrow>
          thenR (derefN s na) (\<lambda>n.
          thenR (gcEntries w tm na (map fst (entries_n n)) s) (\<lambda>s1.
          thenR (checkDeleteNode w nd s1) (\<lambda>s2.
          gcNodes w tm nds s2))))"

fun gcTopics :: "world \<Rightarrow> Topic list \<Rightarrow> TopicTable \<Rightarrow> TopicTable result" where
  "gcTopics w [] s = Ok s"
| "gcTopics w (tp # tps) s =
     (case map_of (topics s) tp of
        None \<Rightarrow> gcTopics w tps s
      | Some a \<Rightarrow> thenR (checkDeleteTopic w tp s) (\<lambda>s'. gcTopics w tps s'))"

definition collectGarbage :: "world \<Rightarrow> TopicTable \<Rightarrow> TopicTable result" where
  "collectGarbage w s =
     (let tm = NanoTime w in
      if tm - lastGarbageCollection s < gcInterval then Ok s
      else
        let s1 = s\<lparr>lastGarbageCollection := tm\<rparr> in
        thenR (gcNodes w tm (map fst (nodes s1)) s1) (\<lambda>s2.
        gcTopics w (map fst (topics s2)) s2))"

subsection \<open>The operations of the table\<close>

definition GetEntries :: "world \<Rightarrow> Topic \<Rightarrow> TopicTable \<Rightarrow> (Node list \<times> TopicTable) result" where
  "GetEntries w tp s =
     thenR (collectGarbage w s) (\<lambda>s1.
     case map_of (topics s1) tp of
       None \<Rightarrow> Ok ([], s1)
     | Some ta \<Rightarrow>
         thenR (derefT s1 ta) (\<lambda>te.
         let ns = map (\<lambda>(k, e). node e) (entries te);
             s2 = s1\<lparr>requestCnt := requestCnt s1 + 1\<rparr>
         in thenR (tq_update s2 (rqItem te) (requestCnt s2)) (\<lambda>s3. Ok (ns, s3))))"

text \<open>
  The admission window of \<open>useTicket\<close>:
  \<open>relTime := int32(currTime - w); relTime >= -1 && relTime <= regTimeWindow+1\<close>.
\<close>

definition inRegWindow :: "32 word \<Rightarrow> 32 word \<Rightarrow> bool" where
  "inRegWindow currTime wp =
     (let relTime = sint (currTime - wp) in relTime \<ge> - 1 \<and> relTime \<le> regTimeWindow + 1)"

text \<open>
  The loop \<open>for i, w := range waitPeriods\<close> of \<open>useTicket\<close>; \<open>topics[i]\<close> is read only
  when the window test has passed, and panics when \<open>i\<close> is out of range.
\<close>

fun regTopicsLoop ::
  "32 word \<Rightarrow> (Topic \<times> topicEntry) list \<Rightarrow> Topic list \<Rightarrow> 32 word list \<Rightarrow> nat \<Rightarrow> Topic list
   \<Rightarrow> Topic list result" where
  "regTopicsLoop currTime ents tps [] i acc = Ok acc"
| "regTopicsLoop currTime ents tps (wp # wps) i acc =
     (if inRegWindow currTime wp then
        (if i < length tps then
           (if map_of ents (tps ! i) = None
            then regTopicsLoop currTime ents tps wps (i + 1) (acc @ [tps ! i])
            else regTopicsLoop currTime ents tps wps (i + 1) acc)
         else Panic IndexOutOfRange)
      else regTopicsLoop currTime ents tps wps (i + 1) acc)"

definition currTimeOf :: "64 word \<Rightarrow> 32 word" where
  "currTimeOf tm = ucast (tm div 1000000000)"

text \<open>
  The serial number step of \<open>useTicket\<close>, for a serial that is not below the last used
  one: \<open>if serialNo != n.lastUsedTicket { n.lastUsedTicket = serialNo; t.storeTicket(node) }\<close>.
  \<open>na\<close> is the pointer \<open>n\<close>.
\<close>

definition acceptSerial :: "Node \<Rightarrow> nat \<Rightarrow> 32 word \<Rightarrow> TopicTable \<Rightarrow> TopicTable result" where
  "acceptSerial nd na serialNo s =
     thenR (derefN s na) (\<lambda>n.
     if serialNo \<noteq> lastUsedTicket n
     then storeTicket nd (s\<lparr>nodeInfos := (nodeInfos s)(na \<mapsto> n\<lparr>lastUsedTicket := serialNo\<rparr>)\<rparr>)
     else Ok s)"

text \<open>
  The rest of \<open>useTicket\<close>: the topics that pass are collected in \<open>regTopics\<close> and
  registered with \<open>AddEntries\<close>; then \<open>noTicketUntil\<close> is set.
\<close>

definition registerTicket ::
  "world \<Rightarrow> Node \<Rightarrow> nat \<Rightarrow> Topic list \<Rightarrow> 32 word list \<Rightarrow> 64 word \<Rightarrow> TopicTable
   \<Rightarrow> (bool \<times> TopicTable) result" where
  "registerTicket w nd na tps waitPeriods expiry s =
     (let tm = NanoTime w;
          currTime = currTimeOf tm
      in
      thenR (derefN s na) (\<lambda>n.
      thenR (regTopicsLoop currTime (entries_n n) tps waitPeriods 0 []) (\<lambda>regTopics.
      if regTopics \<noteq> [] then
        thenR (AddEntries w nd regTopics expiry s) (\<lambda>s4.
        thenR (derefN s4 na) (\<lambda>n4.
        Ok (True, s4\<lparr>nodeInfos :=
                       (nodeInfos s4)(na \<mapsto> n4\<lparr>noTicketUntil := tm + noTicketTimeout w\<rparr>)\<rparr>)))
      else Ok (False, s))))"

text \<open>It is assumed that topics and waitPeriods have the same length.\<close>

definition useTicket ::
  "world \<Rightarrow> Node \<Rightarrow> 32 word \<Rightarrow> Topic list \<Rightarrow> 32 word list \<Rightarrow> 64 word \<Rightarrow> TopicTable
   \<Rightarrow> (bool \<times> TopicTable) result" where
  "useTicket w nd serialNo tps waitPeriods expiry s =
     thenR (collectGarbage w s) (\<lambda>s1.
     let (na, s2) = getOrNewNode nd s1 in
     thenR (derefN s2 na) (\<lambda>n.
     if serialNo < lastUsedTicket n then Ok (False, s2)
     else
       thenR (acceptSerial nd na serialNo s2) (\<lambda>s3.
       registerTicket w nd na tps waitPeriods expiry s3)))"

text \<open>The wait time of one topic in \<open>getTicket\<close>.\<close>

definition topicWait :: "TopicTable \<Rightarrow> Topic \<Rightarrow> 64 word result" where
  "topicWait s tp =
     (case map_of (topics s) tp of
        Some ta \<Rightarrow> thenR (derefT s ta) (\<lambda>te. Ok (waitPeriod (wcl te)))
      | None \<Rightarrow> Ok minWaitPeriod)"

fun waitUntilLoop :: "TopicTable \<Rightarrow> 32 word \<Rightarrow> Topic list \<Rightarrow> 32 word list result" where
  "waitUntilLoop s currTime [] = Ok []"
| "waitUntilLoop s currTime (tp # tps) =
     thenR (topicWait s tp) (\<lambda>wt.
     thenR (waitUntilLoop s currTime tps) (\<lambda>rest.
     Ok ((currTime + ucast (wt div 1000000000)) # rest)))"

text \<open>
  The issuing step of \<open>getTicket\<close>: \<open>n.lastIssuedTicket++; t.storeTicket(node)\<close>.
\<close>

definition issueSerial :: "Node \<Rightarrow> nat \<Rightarrow> TopicTable \<Rightarrow> TopicTable result" where
  "issueSerial nd na s =
     thenR (derefN s na) (\<lambda>n.
     storeTicket nd
       (s\<lparr>nodeInfos := (nodeInfos s)(na \<mapsto> n\<lparr>lastIssuedTicket := lastIssuedTicket n + 1\<rparr>)\<rparr>))"

text \<open>\<open>getTicket\<close> returns \<open>(serialNo, currTime, waitUntil)\<close>.\<close>

definition getTicket ::
  "world \<Rightarrow> Node \<Rightarrow> Topic list \<Rightarrow> TopicTable
   \<Rightarrow> ((32 word \<times> 32 word \<times> 32 word list) \<times> TopicTable) result" where
  "getTicket w nd tps s =
     thenR (collectGarbage w s) (\<lambda>s1.
     let tm = NanoTime w;
         currTime = currTimeOf tm;
         (na, s2) = getOrNewNode nd s1
     in
     thenR (derefN s2 na) (\<lambda>n.
     if noTicketUntil n > tm then Ok ((0, currTime, []), s2)
     else
       thenR (issueSerial nd na s2) (\<lambda>s4.
       thenR (derefN s4 na) (\<lambda>n4.
       thenR (waitUntilLoop s4 currTime tps) (\<lambda>waitUntil.
       Ok ((lastIssuedTicket n4, currTime, waitUntil), s4))))))"

subsection \<open>Example inputs for the topic table\<close>

text \<open>
  An example world at clock value 100 s. Its \<open>scaledWait\<close> multiplies by 1, which is what
  the Go expression computes at the only point where the examples below call it: for
  \<open>waitPeriod = 0\<close> (the first registration of a topic) the product is 0.
\<close>

definition world_ex :: world where
  "world_ex = \<lparr>NanoTime = 100000000000, noTicketTimeout = 600000000000,
                scaledWait = (\<lambda>wp period. wp)\<rparr>"

definition node_ex :: Node where
  "node_ex = Node 1 7 0"

definition db_ex :: "nat \<Rightarrow> 32 word \<times> 32 word" where
  "db_ex = (\<lambda>i. (0, 0))"

text \<open>
  The number of entries of a topic, and the scenario of two \<open>useTicket\<close> calls with the
  same serial and topics in immediate succession (at clock value 112 s), on a table in
  which the node already advertises another topic (registered at 100 s). \<open>sw\<close> is the
  floating point step of the wait control loop, left open. The result is what the two
  calls return, and the number of entries of topic \<open>B\<close> and \<open>globalEntries\<close> at the end.
\<close>

definition entryCount :: "TopicTable \<Rightarrow> Topic \<Rightarrow> nat" where
  "entryCount s tp =
     (case map_of (topics s) tp of
        None \<Rightarrow> 0
      | Some ta \<Rightarrow> (case topicInfos s ta of None \<Rightarrow> 0 | Some te \<Rightarrow> length (entries te)))"

definition useTicket_twice ::
  "(64 word \<Rightarrow> 64 word \<Rightarrow> 64 word) \<Rightarrow> (bool \<times> bool \<times> nat \<times> 64 word) result" where
  "useTicket_twice sw =
     (let wa = \<lparr>NanoTime = 100000000000, noTicketTimeout = 600000000000, scaledWait = sw\<rparr>;
          wb = \<lparr>NanoTime = 112000000000, noTicketTimeout = 600000000000, scaledWait = sw\<rparr>
      in
      thenR (AddEntries wa node_ex [''A''] 3600000000000 (NewTopicTable db_ex)) (\<lambda>s1.
      thenR (useTicket wb node_ex 1 [''B''] [112] 3600000000000 s1) (\<lambda>(r1, s2).
      thenR (useTicket wb node_ex 1 [''B''] [112] 3600000000000 s2) (\<lambda>(r2, s3).
      Ok (r1, r2, entryCount s3 ''B'', globalEntries s3)))))"

text \<open>
  The empty table after garbage collection at 100 s, and after the lookup of the example
  node, whose record is then new.
\<close>

definition table_gc_ex :: TopicTable where
  "table_gc_ex = (NewTopicTable db_ex)\<lparr>lastGarbageCollection := 100000000000\<rparr>"

definition nodeInfo_ex :: nodeInfo where
  "nodeInfo_ex = \<lparr>entries_n = [], noTicketUntil = 0, lastIssuedTicket = 0, lastUsedTicket = 0\<rparr>"

definition table_node_ex :: TopicTable where
  "table_node_ex =
     table_gc_ex\<lparr>nodes := [(node_ex, 0)], nodeInfos := [0 \<mapsto> nodeInfo_ex], nextAddr := 1\<rparr>"

section \<open>Ticket store (p2p/discover/ticket.go)\<close>

text \<open>
  The \<open>float64\<close> computations of the ticket store are not interpreted: the operations on
  \<open>float64\<close> are parameters, and every definition below is given for any choice of them.
  \<open>f_lit\<close> converts a constant of the source, given as a fraction of two integers, to
  \<open>float64\<close>; \<open>f_of_u64\<close> and \<open>f_of_i64\<close> are the conversions \<open>float64(x)\<close> of a \<open>uint64\<close>
  and of an \<open>int64\<close>, \<open>f_to_u64\<close> is \<open>uint64(x)\<close>.
\<close>

type_synonym fraction = "int \<times> int"

definition fr_sub :: "fraction \<Rightarrow> fraction \<Rightarrow> fraction" where
  "fr_sub p q = (fst p * snd q - fst q * snd p, snd p * snd q)"

record 'f floatOps =
  f_lit :: "fraction \<Rightarrow> 'f"
  f_of_u64 :: "64 word \<Rightarrow> 'f"
  f_of_i64 :: "int \<Rightarrow> 'f"
  f_to_u64 :: "'f \<Rightarrow> 64 word"
  f_add :: "'f \<Rightarrow> 'f \<Rightarrow> 'f"
  f_mul :: "'f \<Rightarrow> 'f \<Rightarrow> 'f"
  f_div :: "'f \<Rightarrow> 'f \<Rightarrow> 'f"
  f_lt :: "'f \<Rightarrow> 'f \<Rightarrow> bool"
  f_le :: "'f \<Rightarrow> 'f \<Rightarrow> bool"

text \<open>
  \<open>absTime\<close> (an \<open>int64\<close>) and \<open>timeBucket\<close> (an \<open>int\<close>, 64 bits) are integers kept in
  the range of \<open>int64\<close>: \<open>wrap64\<close> is the wrap-around of an arithmetic result.
\<close>

definition wrap64 :: "int \<Rightarrow> int" where
  "wrap64 x = (x + 2 ^ 63) mod 2 ^ 64 - 2 ^ 63"

definition ticketTimeBucketLen :: int where
  "ticketTimeBucketLen = 60000000000"

definition timeWindow :: int where
  "timeWindow = 30"

definition keepTicketConst :: int where
  "keepTicketConst = 600000000000"

definition keepTicketExp :: int where
  "keepTicketExp = 300000000000"

definition maxRadius :: "64 word" where
  "maxRadius = 0xffffffffffffffff"

definition minRadAverage :: "64 word" where
  "minRadAverage = 100"

definition minRadStableAfter :: "64 word" where
  "minRadStableAfter = 50"

definition targetWaitTime :: int where
  "targetWaitTime = 600000000000"

definition adjustRatio :: fraction where
  "adjustRatio = (2, 1000)"

definition adjustCooldownStart :: fraction where
  "adjustCooldownStart = (1, 10)"

definition adjustCooldownStep :: fraction where
  "adjustCooldownStep = (1, 100)"

definition radiusExtendRatio :: fraction where
  "radiusExtendRatio = (15, 10)"

record ticket =
  topics_t :: "Topic list"
  regTime :: "int list"
  serial :: "32 word"
  issueTime :: int
  node_t :: Node
  refCnt :: int
  pong :: "byte list"

text \<open>\<open>ticketRef\<close>: \<open>tkt\<close> is the pointer \<open>t\<close>, the address of the ticket.\<close>

record ticketRef =
  tkt :: nat
  idx :: int

text \<open>
  \<open>pongToTicket\<close>: \<open>wps\<close> are the wait periods of the pong packet, \<open>hashOk\<close> is the
  outcome of the comparison of \<open>rlpHash(topics)\<close> with the topic hash of the packet,
  \<open>raw\<close> the raw data of the packet. \<open>Inl\<close> is the error returned.
\<close>

definition pongToTicket ::
  "int \<Rightarrow> Topic list \<Rightarrow> Node \<Rightarrow> 32 word list \<Rightarrow> bool \<Rightarrow> byte list \<Rightarrow> string + ticket" where
  "pongToTicket localTime tps n wps hashOk raw =
     (if length tps \<noteq> length wps then Inl ''bad wait period list''
      else if \<not> hashOk then Inl ''bad topic hash''
      else Inr \<lparr>topics_t = tps,
                 regTime = map (\<lambda>wp. wrap64 (localTime + 1000000000 * int (unat wp))) wps,
                 serial = 0, issueTime = localTime, node_t = n, refCnt = 0, pong = raw\<rparr>)"

record 'f topicRadius =
  topic_r :: Topic
  topicHashPrefix :: "64 word"
  radius :: "64 word"
  adjustCooldown :: 'f
  converged :: bool
  intExtBalance :: 'f

record reqInfo =
  pingHash :: "byte list"
  topic_q :: Topic

text \<open>
  The store with the tickets it points to: \<open>ticketHeap\<close> lists the tickets allocated
  so far, and the pointer to a ticket is its position in that list. The maps \<open>radius\<close>,
  \<open>tickets\<close> and the bucket maps in it are held by value: each is reachable from one
  place only. The log channel, which only prints, is left out.
\<close>

record 'f ticketStore =
  radius_s :: "(Topic \<times> 'f topicRadius) list"
  tickets :: "(Topic \<times> (int \<times> ticketRef list) list) list"
  regtopics :: "Topic list"
  nodes_s :: "(Node \<times> nat) list"
  nodeLastReq :: "(Node \<times> reqInfo) list"
  lastBucketFetched :: int
  nextTicketCached :: "ticketRef option"
  nextTicketReg :: int
  minRadCnt :: "64 word"
  minRadPtr :: "64 word"
  minRadius :: "64 word"
  minRadSum :: "64 word"
  lastMinRads :: "64 word list"
  ticketHeap :: "ticket list"

definition newTicketStore :: "'f ticketStore" where
  "newTicketStore =
     \<lparr>radius_s = [], tickets = [], regtopics = [], nodes_s = [], nodeLastReq = [],
      lastBucketFetched = 0, nextTicketCached = None, nextTicketReg = 0,
      minRadCnt = 0, minRadPtr = 0, minRadius = 0, minRadSum = 0,
      lastMinRads = replicate 100 0, ticketHeap = []\<rparr>"

definition derefTk :: "'f ticketStore \<Rightarrow> nat \<Rightarrow> ticket result" where
  "derefTk s a =
     (if a < length (ticketHeap s) then Ok (ticketHeap s ! a) else Panic NilDereference)"

text \<open>The index expressions \<open>t.regTime[i]\<close> and \<open>t.topics[i]\<close>.\<close>

definition regTimeAt :: "ticket \<Rightarrow> int \<Rightarrow> int result" where
  "regTimeAt tk i =
     (if 0 \<le> i \<and> i < int (length (regTime tk)) then Ok (regTime tk ! nat i)
      else Panic IndexOutOfRange)"

definition topicAt :: "ticket \<Rightarrow> int \<Rightarrow> Topic result" where
  "topicAt tk i =
     (if 0 \<le> i \<and> i < int (length (topics_t tk)) then Ok (topics_t tk ! nat i)
      else Panic IndexOutOfRange)"

text \<open>\<open>ticketRef.topicRegTime\<close>.\<close>

definition topicRegTime :: "'f ticketStore \<Rightarrow> ticketRef \<Rightarrow> int result" where
  "topicRegTime s ref = thenR (derefTk s (tkt ref)) (\<lambda>tk. regTimeAt tk (idx ref))"

subsection \<open>The topic radius\<close>

text \<open>
  \<open>newTopicRadius\<close>; \<open>th\<close> stands for the first eight bytes of \<open>crypto.Keccak256Hash\<close>
  of the topic, read as a big-endian \<open>uint64\<close>.
\<close>

definition newTopicRadius :: "'f floatOps \<Rightarrow> (Topic \<Rightarrow> 64 word) \<Rightarrow> Topic \<Rightarrow> 'f topicRadius" where
  "newTopicRadius fl th tp =
     \<lparr>topic_r = tp, topicHashPrefix = th tp, radius = maxRadius,
      adjustCooldown = f_lit fl adjustCooldownStart, converged = False,
      intExtBalance = f_lit fl (0, 1)\<rparr>"

definition isInRadius :: "'f floatOps \<Rightarrow> 'f topicRadius \<Rightarrow> ticket \<Rightarrow> bool \<Rightarrow> bool" where
  "isInRadius fl r tk extRadius =
     (let nodePrefix = shaPrefix (node_t tk);
          dist = nodePrefix XOR topicHashPrefix r
      in if extRadius
         then f_lt fl (f_of_u64 fl dist) (f_mul fl (f_of_u64 fl (radius r)) (f_lit fl radiusExtendRatio))
         else dist < radius r)"

text \<open>
  \<open>topicRadius.adjust\<close>, in the order of the source: the balance step and its sign from
  \<open>isInRadius\<close>, the early return, the sign of \<open>adjust\<close> from the wait time of the ticket,
  its magnitude, the new radius with its two bounds, and the cool-down.
\<close>

definition adjustSign :: "'f floatOps \<Rightarrow> int \<Rightarrow> 'f" where
  "adjustSign fl wait = (if wait > targetWaitTime then f_lit fl (1, 1) else f_lit fl (- 1, 1))"

definition adjustStep :: "'f floatOps \<Rightarrow> 'f topicRadius \<Rightarrow> int \<Rightarrow> 'f" where
  "adjustStep fl r wait =
     (if converged r then f_mul fl (adjustSign fl wait) (f_lit fl adjustRatio)
      else f_mul fl (adjustSign fl wait) (adjustCooldown r))"

definition boundRadius :: "'f floatOps \<Rightarrow> 'f \<Rightarrow> 64 word \<Rightarrow> 64 word" where
  "boundRadius fl x minRad =
     (if f_lt fl (f_of_u64 fl maxRadius) x then maxRadius
      else if f_to_u64 fl x < minRad then minRad else f_to_u64 fl x)"

definition adjust ::
  "'f floatOps \<Rightarrow> 'f topicRadius \<Rightarrow> ticket \<Rightarrow> int \<Rightarrow> 64 word \<Rightarrow> bool \<Rightarrow> 'f topicRadius result" where
  "adjust fl r tk i minRad minRadStable =
     (let inside = isInRadius fl r tk False;
          balanceStep = (if inside then f_lit fl (fr_sub radiusExtendRatio (1, 1)) else f_lit fl (- 1, 1));
          stepSign = (if inside then f_lit fl (1, 1) else f_lit fl (- 1, 1))
      in if f_lt fl (f_lit fl (3, 1)) (f_mul fl (intExtBalance r) stepSign) then Ok r
         else
           let r1 = r\<lparr>intExtBalance := f_add fl (intExtBalance r) balanceStep\<rparr> in
           thenR (regTimeAt tk i) (\<lambda>rt.
           let wait = wrap64 (rt - issueTime tk);
               adj = adjustStep fl r1 wait;
               x = f_mul fl (f_of_u64 fl (radius r1)) (f_add fl (f_lit fl (1, 1)) adj);
               r2 = r1\<lparr>radius := boundRadius fl x minRad\<rparr>
           in if \<not> converged r2 \<and>
                 (f_lt fl (f_lit fl (0, 1)) adj \<or> (radius r2 = minRad \<and> minRadStable))
              then
                (let c = f_mul fl (adjustCooldown r2) (f_lit fl (fr_sub (1, 1) adjustCooldownStep));
                     r3 = r2\<lparr>adjustCooldown := c\<rparr>
                 in if f_le fl c (f_lit fl adjustRatio) then Ok (r3\<lparr>converged := True\<rparr>)
                    else Ok r3)
              else Ok r2))"

subsection \<open>Operations of the store\<close>

text \<open>\<open>addTopic\<close>: starts tracking a topic.\<close>

definition addTopic ::
  "'f floatOps \<Rightarrow> (Topic \<Rightarrow> 64 word) \<Rightarrow> Topic \<Rightarrow> bool \<Rightarrow> 'f ticketStore \<Rightarrow> 'f ticketStore" where
  "addTopic fl th tp register s =
     (let s1 = (if map_of (radius_s s) tp = None
                then s\<lparr>radius_s := AList.update tp (newTopicRadius fl th tp) (radius_s s)\<rparr>
                else s)
      in if register \<and> map_of (tickets s1) tp = None
         then s1\<lparr>tickets := AList.update tp [] (tickets s1)\<rparr>
         else s1)"

text \<open>
  \<open>ref.t.refCnt--\<close> and, when the count reaches zero, the removal of the node of the
  ticket from \<open>nodes\<close> and \<open>nodeLastReq\<close>: the same statements stand in
  \<open>removeRegisterTopic\<close> and in \<open>ticketRegistered\<close>.
\<close>

definition dropRef :: "nat \<Rightarrow> 'f ticketStore \<Rightarrow> 'f ticketStore result" where
  "dropRef ta s =
     thenR (derefTk s ta) (\<lambda>tk.
     let tk1 = tk\<lparr>refCnt := wrap64 (refCnt tk - 1)\<rparr>;
         s1 = s\<lparr>ticketHeap := (ticketHeap s)[ta := tk1]\<rparr>
     in if refCnt tk1 = 0
        then Ok (s1\<lparr>nodes_s := AList.delete (node_t tk1) (nodes_s s1),
                    nodeLastReq := AList.delete (node_t tk1) (nodeLastReq s1)\<rparr>)
        else Ok s1)"

fun dropRefs :: "ticketRef list \<Rightarrow> 'f ticketStore \<Rightarrow> 'f ticketStore result" where
  "dropRefs [] s = Ok s"
| "dropRefs (ref # refs) s = thenR (dropRef (tkt ref) s) (dropRefs refs)"

text \<open>\<open>removeRegisterTopic\<close> deletes all tickets for the given topic.\<close>

definition removeRegisterTopic :: "Topic \<Rightarrow> 'f ticketStore \<Rightarrow> 'f ticketStore result" where
  "removeRegisterTopic tp s =
     thenR (dropRefs (concat (map snd (case map_of (tickets s) tp of None \<Rightarrow> [] | Some m \<Rightarrow> m))) s)
       (\<lambda>s1. Ok (s1\<lparr>tickets := AList.delete tp (tickets s1)\<rparr>))"

text \<open>
  \<open>needMoreTickets\<close>: the sum over the buckets \<open>ltBucket .. ltBucket + timeWindow - 1\<close>.
\<close>

fun ticketWeights ::
  "'f floatOps \<Rightarrow> 'f ticketStore \<Rightarrow> ticketRef list \<Rightarrow> 'f \<Rightarrow> 'f result" where
  "ticketWeights fl s [] sum0 = Ok sum0"
| "ticketWeights fl s (ref # refs) sum0 =
     thenR (derefTk s (tkt ref)) (\<lambda>tk.
     thenR (regTimeAt tk (idx ref)) (\<lambda>rt.
     let l0 = wrap64 (rt - issueTime tk);
         l1 = (if l0 > ticketTimeBucketLen * timeWindow then ticketTimeBucketLen * timeWindow else l0);
         l = (if l1 < 60000000000 then 60000000000 else l1)
     in ticketWeights fl s refs
          (f_add fl sum0 (f_div fl (f_of_i64 fl targetWaitTime) (f_of_i64 fl l)))))"

fun bucketWeights ::
  "'f floatOps \<Rightarrow> 'f ticketStore \<Rightarrow> (int \<times> ticketRef list) list \<Rightarrow> int list \<Rightarrow> 'f \<Rightarrow> 'f result" where
  "bucketWeights fl s m [] sum0 = Ok sum0"
| "bucketWeights fl s m (g # gs) sum0 =
     thenR (ticketWeights fl s (case map_of m g of None \<Rightarrow> [] | Some l \<Rightarrow> l) sum0)
       (bucketWeights fl s m gs)"

definition needMoreTickets :: "'f floatOps \<Rightarrow> int \<Rightarrow> 'f ticketStore \<Rightarrow> Topic \<Rightarrow> bool result" where
  "needMoreTickets fl now s tp =
     (let ltBucket = quo now ticketTimeBucketLen;
          m = (case map_of (tickets s) tp of None \<Rightarrow> [] | Some m \<Rightarrow> m)
      in thenR (bucketWeights fl s m (map (\<lambda>k. ltBucket + int k) [0..<nat timeWindow]) (f_lit fl (0, 1)))
           (\<lambda>sum0. Ok (f_lt fl sum0 (f_lit fl (10, 1)))))"

text \<open>
  One pass of the loop of \<open>nextRegisterableTicket\<close> over \<open>bucket\<close>: whether no topic has
  tickets (\<open>empty\<close>, here \<open>noTickets\<close>), and the reference of the bucket with the least registration time
  (\<open>None\<close> is the uninitialized \<open>nextTicket\<close>).
\<close>

fun leastRef ::
  "'f ticketStore \<Rightarrow> ticketRef list \<Rightarrow> ticketRef option \<Rightarrow> ticketRef option result" where
  "leastRef s [] nextTicket = Ok nextTicket"
| "leastRef s (ref # refs) nextTicket =
     (case nextTicket of
        None \<Rightarrow> leastRef s refs (Some ref)
      | Some nt \<Rightarrow>
          thenR (topicRegTime s ref) (\<lambda>a.
          thenR (topicRegTime s nt) (\<lambda>b.
          if a < b then leastRef s refs (Some ref) else leastRef s refs nextTicket)))"

fun scanBucket ::
  "'f ticketStore \<Rightarrow> int \<Rightarrow> (Topic \<times> (int \<times> ticketRef list) list) list
   \<Rightarrow> bool \<times> ticketRef option \<Rightarrow> (bool \<times> ticketRef option) result" where
  "scanBucket s bucket [] acc = Ok acc"
| "scanBucket s bucket ((tp, m) # rest) (noTickets, nextTicket) =
     (if length m \<noteq> 0 then
        (case map_of m bucket of
           None \<Rightarrow> scanBucket s bucket rest (False, nextTicket)
         | Some l \<Rightarrow>
             thenR (leastRef s l nextTicket) (\<lambda>nt. scanBucket s bucket rest (False, nt)))
      else scanBucket s bucket rest (noTickets, nextTicket))"

text \<open>
  The loop \<open>for bucket := s.lastBucketFetched; ; bucket++\<close>; \<open>None\<close> is a scan that does
  not end. The result is the reference (\<open>None\<close> is \<open>nil\<close>) and the wait time.
\<close>

partial_function (option) scanFrom ::
  "int \<Rightarrow> 'f ticketStore \<Rightarrow> int \<Rightarrow> ((ticketRef option \<times> int) \<times> 'f ticketStore) result option" where
  "scanFrom now s bucket =
     (case scanBucket s bucket (tickets s) (True, None) of
        Panic e \<Rightarrow> Some (Panic e)
      | Hang \<Rightarrow> Some Hang
      | Ok (noTickets, nextTicket) \<Rightarrow>
          if noTickets then Some (Ok ((None, 0), s))
          else (case nextTicket of
                  Some ref \<Rightarrow>
                    Some (thenR (topicRegTime s ref) (\<lambda>rt.
                          Ok ((Some ref, wrap64 (rt - now)), s\<lparr>nextTicketCached := Some ref\<rparr>)))
                | None \<Rightarrow> scanFrom now (s\<lparr>lastBucketFetched := bucket\<rparr>) (wrap64 (bucket + 1))))"

text \<open>\<open>nextRegisterableTicket\<close>; \<open>now\<close> is \<open>monotonicTime()\<close>.\<close>

definition nextRegisterableTicket ::
  "int \<Rightarrow> 'f ticketStore \<Rightarrow> ((ticketRef option \<times> int) \<times> 'f ticketStore) result" where
  "nextRegisterableTicket now s =
     (case nextTicketCached s of
        Some ref \<Rightarrow> thenR (topicRegTime s ref) (\<lambda>rt. Ok ((Some ref, wrap64 (rt - now)), s))
      | None \<Rightarrow>
          (case scanFrom now s (lastBucketFetched s) of
             None \<Rightarrow> Hang
           | Some r \<Rightarrow> r))"

text \<open>The search for \<open>bt.t == ref.t\<close> in \<open>ticketRegistered\<close>; \<open>None\<close> is \<open>idx == -1\<close>.\<close>

fun findRef :: "ticketRef list \<Rightarrow> nat \<Rightarrow> nat option" where
  "findRef [] ta = None"
| "findRef (bt # rest) ta =
     (if tkt bt = ta then Some 0 else map_option Suc (findRef rest ta))"

text \<open>\<open>ticketRegistered\<close> is called when t has been used to register for a topic.\<close>

definition ticketRegistered :: "ticketRef \<Rightarrow> 'f ticketStore \<Rightarrow> 'f ticketStore result" where
  "ticketRegistered ref s =
     thenR (derefTk s (tkt ref)) (\<lambda>tk.
     thenR (topicAt tk (idx ref)) (\<lambda>tp.
     case map_of (tickets s) tp of
       None \<Rightarrow> Ok s
     | Some m \<Rightarrow>
         thenR (regTimeAt tk (idx ref)) (\<lambda>rt.
         let bucket = quo rt ticketTimeBucketLen;
             list = (case map_of m bucket of None \<Rightarrow> [] | Some l \<Rightarrow> l)
         in case findRef list (tkt ref) of
              None \<Rightarrow> Panic (PanicMsg ''nil'')
            | Some i \<Rightarrow>
                (let list1 = take i list @ drop (i + 1) list;
                     m1 = (if length list1 \<noteq> 0 then AList.update bucket list1 m
                           else AList.delete bucket m);
                     s1 = s\<lparr>tickets := AList.update tp m1 (tickets s)\<rparr>
                 in thenR (dropRef (tkt ref) s1) (\<lambda>s2.
                    Ok (s2\<lparr>nextTicketCached := None\<rparr>))))))"

text \<open>\<open>ticket.findIdx\<close>: returns -1 if not found.\<close>

fun findIdxFrom :: "Topic list \<Rightarrow> Topic \<Rightarrow> int \<Rightarrow> int" where
  "findIdxFrom [] tp i = - 1"
| "findIdxFrom (tt # rest) tp i = (if tt = tp then i else findIdxFrom rest tp (i + 1))"

definition findIdx :: "ticket \<Rightarrow> Topic \<Rightarrow> int" where
  "findIdx tk tp = findIdxFrom (topics_t tk) tp 0"

text \<open>
  \<open>adjustWithTicket\<close>; \<open>ta\<close> is the pointer to the ticket. The call of \<open>adjust\<close> on the
  radius of a topic stores the adjusted radius back.
\<close>

definition adjustTopic ::
  "'f floatOps \<Rightarrow> nat \<Rightarrow> int \<Rightarrow> Topic \<Rightarrow> 'f topicRadius \<Rightarrow> 'f ticketStore \<Rightarrow> 'f ticketStore result" where
  "adjustTopic fl ta i tp tt s =
     thenR (derefTk s ta) (\<lambda>tk.
     thenR (adjust fl tt tk i (minRadius s) (minRadCnt s \<ge> minRadStableAfter)) (\<lambda>tt1.
     Ok (s\<lparr>radius_s := AList.update tp tt1 (radius_s s)\<rparr>)))"

definition adjustIfConverging ::
  "'f floatOps \<Rightarrow> nat \<Rightarrow> Topic \<Rightarrow> int \<Rightarrow> 'f ticketStore \<Rightarrow> 'f ticketStore result" where
  "adjustIfConverging fl ta tp i s =
     thenR (derefTk s ta) (\<lambda>tk.
     case map_of (radius_s s) tp of
       None \<Rightarrow> Ok s
     | Some tt \<Rightarrow>
         if \<not> converged tt \<and> isInRadius fl tt tk True then adjustTopic fl ta i tp tt s
         else Ok s)"

fun adjustConverging ::
  "'f floatOps \<Rightarrow> nat \<Rightarrow> Topic list \<Rightarrow> int \<Rightarrow> 'f ticketStore \<Rightarrow> 'f ticketStore result" where
  "adjustConverging fl ta [] i s = Ok s"
| "adjustConverging fl ta (tp # tps) i s =
     thenR (adjustIfConverging fl ta tp i s) (adjustConverging fl ta tps (i + 1))"

definition adjustWithTicket ::
  "'f floatOps \<Rightarrow> nat \<Rightarrow> int \<Rightarrow> bool \<Rightarrow> 'f ticketStore \<Rightarrow> 'f ticketStore result" where
  "adjustWithTicket fl ta i onlyConverging s =
     thenR (derefTk s ta) (\<lambda>tk.
     if onlyConverging then adjustConverging fl ta (topics_t tk) 0 s
     else
       thenR (topicAt tk i) (\<lambda>tp.
       case map_of (radius_s s) tp of
         None \<Rightarrow> Ok s
       | Some tt \<Rightarrow> if isInRadius fl tt tk True then adjustTopic fl ta i tp tt s else Ok s))"

text \<open>
  The loop \<open>for topicIdx, topic := range t.topics\<close> of \<open>addTicket\<close>: \<open>collectTicket\<close> is
  its body, \<open>rnd\<close> gives the draw of \<open>rand.ExpFloat64()\<close> in the pass for index
  \<open>topicIdx\<close>.
\<close>

definition keepTicket :: "'f floatOps \<Rightarrow> 'f \<Rightarrow> int \<Rightarrow> bool" where
  "keepTicket fl r wait =
     (let rnd = (if f_lt fl (f_lit fl (10, 1)) r then f_lit fl (10, 1) else r)
      in f_lt fl (f_of_i64 fl wait)
           (f_add fl (f_of_i64 fl keepTicketConst) (f_mul fl (f_of_i64 fl keepTicketExp) rnd)))"

definition enqueueRef ::
  "nat \<Rightarrow> int \<Rightarrow> Topic \<Rightarrow> int \<Rightarrow> 'f ticketStore \<Rightarrow> 'f ticketStore result" where
  "enqueueRef ta topicIdx tp rt s =
     (let bucket = quo rt ticketTimeBucketLen;
          m = (case map_of (tickets s) tp of None \<Rightarrow> [] | Some m \<Rightarrow> m);
          list = (case map_of m bucket of None \<Rightarrow> [] | Some l \<Rightarrow> l);
          m1 = AList.update bucket (list @ [\<lparr>tkt = ta, idx = topicIdx\<rparr>]) m;
          s1 = s\<lparr>tickets := AList.update tp m1 (tickets s)\<rparr>
      in thenR (derefTk s1 ta) (\<lambda>tk.
         Ok (s1\<lparr>ticketHeap := (ticketHeap s1)[ta := tk\<lparr>refCnt := wrap64 (refCnt tk + 1)\<rparr>]\<rparr>)))"

definition collectTicket ::
  "'f floatOps \<Rightarrow> 'f \<Rightarrow> int \<Rightarrow> int \<Rightarrow> nat \<Rightarrow> Topic \<Rightarrow> int \<Rightarrow> 'f ticketStore
   \<Rightarrow> 'f ticketStore result" where
  "collectTicket fl r now localTime ta tp topicIdx s =
     thenR (derefTk s ta) (\<lambda>tk.
     case map_of (radius_s s) tp of
       None \<Rightarrow> Ok s
     | Some tt \<Rightarrow>
         if isInRadius fl tt tk False then
           thenR (needMoreTickets fl now s tp) (\<lambda>more.
           if more \<and> map_of (tickets s) tp \<noteq> None \<and> converged tt then
             thenR (regTimeAt tk topicIdx) (\<lambda>rt.
             if keepTicket fl r (wrap64 (rt - localTime))
             then thenR (regTimeAt tk topicIdx) (\<lambda>rt1. enqueueRef ta topicIdx tp rt1 s)
             else Ok s)
           else Ok s)
         else Ok s)"

fun collectTickets ::
  "'f floatOps \<Rightarrow> (int \<Rightarrow> 'f) \<Rightarrow> int \<Rightarrow> int \<Rightarrow> nat \<Rightarrow> Topic list \<Rightarrow> int \<Rightarrow> 'f ticketStore
   \<Rightarrow> 'f ticketStore result" where
  "collectTickets fl rnd now localTime ta [] topicIdx s = Ok s"
| "collectTickets fl rnd now localTime ta (tp # tps) topicIdx s =
     thenR (collectTicket fl (rnd topicIdx) now localTime ta tp topicIdx s)
       (collectTickets fl rnd now localTime ta tps (topicIdx + 1))"

text \<open>
  \<open>addTicket\<close>; \<open>now\<close> is \<open>monotonicTime()\<close> as \<open>needMoreTickets\<close> reads it, \<open>ta\<close> the
  pointer to the ticket. \<open>lowerBucket\<close> is the update of \<open>lastBucketFetched\<close> before the
  loop, \<open>keepNode\<close> the statement after it.
\<close>

definition lowerBucket :: "int \<Rightarrow> 'f ticketStore \<Rightarrow> 'f ticketStore" where
  "lowerBucket localTime s =
     (let bucket = quo localTime ticketTimeBucketLen
      in if lastBucketFetched s = 0 \<or> bucket < lastBucketFetched s
         then s\<lparr>lastBucketFetched := bucket\<rparr> else s)"

definition keepNode :: "nat \<Rightarrow> 'f ticketStore \<Rightarrow> 'f ticketStore result" where
  "keepNode ta s =
     thenR (derefTk s ta) (\<lambda>tk.
     if refCnt tk > 0
     then Ok (s\<lparr>nextTicketCached := None, nodes_s := AList.update (node_t tk) ta (nodes_s s)\<rparr>)
     else Ok s)"

definition addTicket ::
  "'f floatOps \<Rightarrow> (int \<Rightarrow> 'f) \<Rightarrow> int \<Rightarrow> int \<Rightarrow> byte list \<Rightarrow> nat \<Rightarrow> 'f ticketStore
   \<Rightarrow> 'f ticketStore result" where
  "addTicket fl rnd now localTime ph ta s =
     thenR (derefTk s ta) (\<lambda>tk.
     if map_of (nodes_s s) (node_t tk) \<noteq> None then Ok s
     else
       (case map_of (nodeLastReq s) (node_t tk) of
          None \<Rightarrow> adjustWithTicket fl ta (- 1) True s
        | Some lastReq \<Rightarrow>
            if ph \<noteq> pingHash lastReq then adjustWithTicket fl ta (- 1) True s
            else
              (let topicIdx = findIdx tk (topic_q lastReq)
               in if topicIdx = - 1 then Ok s
                  else
                    thenR (adjustWithTicket fl ta topicIdx False s) (\<lambda>s1.
                    thenR (collectTickets fl rnd now localTime ta (topics_t tk) 0
                             (lowerBucket localTime s1))
                      (keepNode ta)))))"

text \<open>\<open>adjustMinRadius\<close>, on the prefixes of the target and of the node found.\<close>

definition adjustMinRadius :: "64 word \<Rightarrow> 64 word \<Rightarrow> 'f ticketStore \<Rightarrow> 'f ticketStore result" where
  "adjustMinRadius tprefix fprefix s =
     (let dist = tprefix XOR fprefix;
          mr = (if dist < maxRadius div 16 then dist * 16 else maxRadius) div minRadAverage
      in if unat (minRadPtr s) < length (lastMinRads s) then
           (let sum1 = minRadSum s - lastMinRads s ! unat (minRadPtr s);
                rads = (lastMinRads s)[unat (minRadPtr s) := mr];
                sum2 = sum1 + mr;
                ptr1 = minRadPtr s + 1;
                ptr = (if ptr1 = minRadAverage then 0 else ptr1);
                cnt = minRadCnt s + 1;
                s1 = s\<lparr>minRadSum := sum2, lastMinRads := rads, minRadPtr := ptr, minRadCnt := cnt\<rparr>
            in if cnt < minRadAverage
               then (if cnt = 0 then Panic (PanicMsg ''integer divide by zero'')
                     else Ok (s1\<lparr>minRadius := (sum2 div cnt) * minRadAverage\<rparr>))
               else Ok (s1\<lparr>minRadius := sum2\<rparr>))
         else Panic IndexOutOfRange)"

text \<open>
  \<open>registerLookupDone\<close>; \<open>ping\<close> is the callback, \<open>target\<close> the first eight bytes of
  \<open>lookup.target\<close> as a big-endian \<open>uint64\<close>. The ticket store calls \<open>monotonicTime()\<close>
  here only to pass it to \<open>adjustWithTicket\<close>, which does not use it.
\<close>

definition lookupNode ::
  "'f floatOps \<Rightarrow> (Node \<Rightarrow> byte list) \<Rightarrow> 64 word \<Rightarrow> Topic \<Rightarrow> Node \<Rightarrow> nat \<Rightarrow> 'f ticketStore
   \<Rightarrow> 'f ticketStore result" where
  "lookupNode fl ping target tp n i s =
     (if i = 0 \<or> (shaPrefix n XOR target) < minRadius s then
        (case map_of (nodes_s s) n of
           Some ta \<Rightarrow>
             thenR (derefTk s ta) (\<lambda>tk.
             let k = findIdx tk tp in
             if k \<noteq> - 1 then adjustWithTicket fl ta k False s else Ok s)
         | None \<Rightarrow>
             Ok (s\<lparr>nodeLastReq :=
                    AList.update n \<lparr>pingHash = ping n, topic_q = tp\<rparr> (nodeLastReq s)\<rparr>))
      else Ok s)"

fun lookupNodes ::
  "'f floatOps \<Rightarrow> (Node \<Rightarrow> byte list) \<Rightarrow> 64 word \<Rightarrow> Topic \<Rightarrow> Node list \<Rightarrow> nat \<Rightarrow> 'f ticketStore
   \<Rightarrow> 'f ticketStore result" where
  "lookupNodes fl ping target tp [] i s = Ok s"
| "lookupNodes fl ping target tp (n # ns) i s =
     thenR (lookupNode fl ping target tp n i s) (lookupNodes fl ping target tp ns (i + 1))"

definition registerLookupDone ::
  "'f floatOps \<Rightarrow> (Node \<Rightarrow> byte list) \<Rightarrow> 64 word \<Rightarrow> Topic \<Rightarrow> Node list \<Rightarrow> 'f ticketStore
   \<Rightarrow> 'f ticketStore result" where
  "registerLookupDone fl ping target tp ns s =
     thenR (case ns of [] \<Rightarrow> Ok s | n # rest \<Rightarrow> adjustMinRadius target (shaPrefix n) s)
       (\<lambda>s1. lookupNodes fl ping target tp ns 0 s1)"


subsection \<open>Runs of the store\<close>

text \<open>
  The calls made on a ticket store, with their arguments: \<open>PongToTicket\<close> allocates the
  ticket that \<open>pongToTicket\<close> builds (nothing, when it returns an error), the others are
  the methods of the store. \<open>run\<close> performs a list of calls in order and stops at the
  first panic.
\<close>

datatype 'f storeCall =
    PongToTicket int "Topic list" Node "32 word list" bool "byte list"
  | AddTopic Topic bool
  | AddTicket "int \<Rightarrow> 'f" int int "byte list" nat
  | TicketRegistered ticketRef
  | RemoveRegisterTopic Topic
  | RegisterLookupDone "Node \<Rightarrow> byte list" "64 word" Topic "Node list"
  | NextRegisterableTicket int

fun call ::
  "'f floatOps \<Rightarrow> (Topic \<Rightarrow> 64 word) \<Rightarrow> 'f storeCall \<Rightarrow> 'f ticketStore \<Rightarrow> 'f ticketStore result" where
  "call fl th (PongToTicket localTime tps n wps hashOk raw) s =
     (case pongToTicket localTime tps n wps hashOk raw of
        Inl e \<Rightarrow> Ok s
      | Inr tk \<Rightarrow> Ok (s\<lparr>ticketHeap := ticketHeap s @ [tk]\<rparr>))"
| "call fl th (AddTopic tp register) s = Ok (addTopic fl th tp register s)"
| "call fl th (AddTicket rnd now localTime ph ta) s = addTicket fl rnd now localTime ph ta s"
| "call fl th (TicketRegistered ref) s = ticketRegistered ref s"
| "call fl th (RemoveRegisterTopic tp) s = removeRegisterTopic tp s"
| "call fl th (RegisterLookupDone ping target tp ns) s = registerLookupDone fl ping target tp ns s"
| "call fl th (NextRegisterableTicket now) s = thenR (nextRegisterableTicket now s) (\<lambda>(r, s1). Ok s1)"

fun run ::
  "'f floatOps \<Rightarrow> (Topic \<Rightarrow> 64 word) \<Rightarrow> 'f storeCall list \<Rightarrow> 'f ticketStore \<Rightarrow> 'f ticketStore result" where
  "run fl th [] s = Ok s"
| "run fl th (c # cs) s = thenR (call fl th c s) (run fl th cs)"







text \<open>Well-formedness of the ticket queues, kept by every call.\<close>

definition inRange64 :: "int \<Rightarrow> bool" where
  "inRange64 x = (- (2 ^ 63) \<le> x \<and> x < 2 ^ 63)"

definition validRef :: "ticket list \<Rightarrow> ticketRef \<Rightarrow> bool" where
  "validRef h ref =
     (tkt ref < length h \<and> 0 \<le> idx ref \<and> idx ref < int (length (regTime (h ! tkt ref))))"

definition timesOk :: "ticket list \<Rightarrow> bool" where
  "timesOk h = (\<forall>tk \<in> set h. \<forall>t \<in> set (regTime tk). inRange64 t)"

definition bucketsOk :: "ticket list \<Rightarrow> (int \<times> ticketRef list) list \<Rightarrow> bool" where
  "bucketsOk h m = (\<forall>(k, l) \<in> set m. l \<noteq> [] \<and> inRange64 k \<and> (\<forall>ref \<in> set l. validRef h ref))"

definition queueOk :: "ticket list \<Rightarrow> (Topic \<times> (int \<times> ticketRef list) list) list \<Rightarrow> bool" where
  "queueOk h q = (\<forall>(tp, m) \<in> set q. bucketsOk h m)"

definition wellFormed :: "'f ticketStore \<Rightarrow> bool" where
  "wellFormed s =
     (queueOk (ticketHeap s) (tickets s) \<and> timesOk (ticketHeap s) \<and>
      (\<forall>ref. nextTicketCached s = Some ref \<longrightarrow> validRef (ticketHeap s) ref))"

text \<open>A reference is queued when some bucket of some topic lists it.\<close>

definition queued :: "(Topic \<times> (int \<times> ticketRef list) list) list \<Rightarrow> ticketRef \<Rightarrow> bool" where
  "queued q ref = (\<exists>(tp, m) \<in> set q. \<exists>(k, l) \<in> set m. ref \<in> set l)"

definition heapLe :: "ticket list \<Rightarrow> ticket list \<Rightarrow> bool" where
  "heapLe h h1 = (length h \<le> length h1 \<and> (\<forall>a < length h. regTime (h1 ! a) = regTime (h ! a)))"

definition frame :: "'f ticketStore \<Rightarrow> 'f ticketStore \<Rightarrow> bool" where
  "frame s s1 =
     (tickets s1 = tickets s \<and> ticketHeap s1 = ticketHeap s \<and>
      nextTicketCached s1 = nextTicketCached s \<and> lastBucketFetched s1 = lastBucketFetched s)"

text \<open>
  The calls other than \<open>registerLookupDone\<close> and \<open>nextRegisterableTicket\<close>, and the stores
  in which no node has been asked for a ticket, no ticket is cached and none is queued.
\<close>

fun listedCall :: "'f storeCall \<Rightarrow> bool" where
  "listedCall (RegisterLookupDone ping target tp ns) = False"
| "listedCall (NextRegisterableTicket now) = False"
| "listedCall c = True"

definition nothingQueued :: "'f ticketStore \<Rightarrow> bool" where
  "nothingQueued s =
     (nodeLastReq s = [] \<and> nextTicketCached s = None \<and> (\<forall>(tp, m) \<in> set (tickets s). m = []))"

subsection \<open>Example radius, tickets and run\<close>





text \<open>A store whose only queued ticket lies in bucket 2, with \<open>lastBucketFetched = 0\<close>.\<close>

definition store_queued_ex :: "fraction ticketStore" where
  "store_queued_ex =
     newTicketStore
       \<lparr>tickets := [(''T'', [(2, [\<lparr>tkt = 0, idx = 0\<rparr>])])],
        ticketHeap := [\<lparr>topics_t = [''T''], regTime = [130000000000], serial = 0,
                        issueTime = 70000000000, node_t = Node 3 3 5, refCnt = 1, pong = []\<rparr>]\<rparr>"

section \<open>Proofs: request cost statistics\<close>

lemma be_bytes_of_word:
  fixes b0 b1 b2 b3 b4 b5 b6 b7 :: byte
  defines "v \<equiv> (ucast b7 OR push_bit 8 (ucast b6) OR push_bit 16 (ucast b5)
       OR push_bit 24 (ucast b4) OR push_bit 32 (ucast b3) OR push_bit 40 (ucast b2)
       OR push_bit 48 (ucast b1) OR push_bit 56 (ucast b0) :: 64 word)"
  shows "ucast (drop_bit 56 v) = b0" "ucast (drop_bit 48 v) = b1" "ucast (drop_bit 40 v) = b2"
    "ucast (drop_bit 32 v) = b3" "ucast (drop_bit 24 v) = b4" "ucast (drop_bit 16 v) = b5"
    "ucast (drop_bit 8 v) = b6" "ucast v = b7"
  unfolding v_def
  by (rule bit_word_eqI; simp add: bit_simps; force dest: bit_imp_le_length)+

lemma length8_cases:
  assumes "length (bs :: 'a list) = 8"
  obtains b0 b1 b2 b3 b4 b5 b6 b7 where "bs = [b0, b1, b2, b3, b4, b5, b6, b7]"
proof -
  from assms obtain b0 r0 where "bs = b0 # r0" "length r0 = 7" by (cases bs) auto
  moreover then obtain b1 r1 where "r0 = b1 # r1" "length r1 = 6" by (cases r0) auto
  moreover then obtain b2 r2 where "r1 = b2 # r2" "length r2 = 5" by (cases r1) auto
  moreover then obtain b3 r3 where "r2 = b3 # r3" "length r3 = 4" by (cases r2) auto
  moreover then obtain b4 r4 where "r3 = b4 # r4" "length r4 = 3" by (cases r3) auto
  moreover then obtain b5 r5 where "r4 = b5 # r5" "length r5 = 2" by (cases r4) auto
  moreover then obtain b6 r6 where "r5 = b6 # r6" "length r6 = 1" by (cases r5) auto
  moreover then obtain b7 where "r6 = [b7]" by (cases r6) auto
  ultimately show thesis using that by simp
qed

lemma PutUint64_Uint64:
  assumes "length bs = 8"
  shows "\<exists>v. Uint64 bs = Some v \<and> PutUint64 v = bs"
proof -
  from assms obtain b0 b1 b2 b3 b4 b5 b6 b7 where bs: "bs = [b0, b1, b2, b3, b4, b5, b6, b7]"
    by (rule length8_cases)
  define v :: "64 word" where "v = ucast b7 OR push_bit 8 (ucast b6) OR push_bit 16 (ucast b5)
       OR push_bit 24 (ucast b4) OR push_bit 32 (ucast b3) OR push_bit 40 (ucast b2)
       OR push_bit 48 (ucast b1) OR push_bit 56 (ucast b0)"
  have "Uint64 bs = Some v"
    by (simp add: bs v_def)
  moreover have "PutUint64 v = bs"
    unfolding PutUint64_def bs v_def by (simp only: be_bytes_of_word)
  ultimately show ?thesis by blast
qed

lemma slices_of_40:
  assumes "length (data :: 'a list) = 40"
  shows "data = slice data 0 8 @ slice data 8 16 @ slice data 16 24 @ slice data 24 32 @
           slice data 32 40"
proof -
  have step: "\<And>k (xs :: 'a list). drop k xs = take 8 (drop k xs) @ drop (k + 8) xs"
    by (metis add.commute append_take_drop_id drop_drop)
  have "data = drop 0 data" by simp
  also have "\<dots> = take 8 (drop 0 data) @ drop 8 data" using step [of 0 data] by simp
  also have "drop 8 data = take 8 (drop 8 data) @ drop 16 data" using step [of 8 data] by simp
  also have "drop 16 data = take 8 (drop 16 data) @ drop 24 data" using step [of 16 data] by simp
  also have "drop 24 data = take 8 (drop 24 data) @ drop 32 data" using step [of 24 data] by simp
  also have "drop 32 data = take 8 (drop 32 data)" using assms by simp
  finally show ?thesis by (simp add: slice_def)
qed

text \<open>
  C9. Serialising the accumulator read from a 40-byte blob gives the blob back:
  \<open>linRegFromBytes\<close> accepts every 40-byte input, and \<open>toBytes\<close> of its result is the
  input, the four sums being written as the big-endian bit patterns of their
  \<open>float64\<close> values and the count as a big-endian \<open>uint64\<close>.
\<close>

theorem linReg_toBytes_fromBytes:
  assumes "length data = 40"
  shows "\<exists>l. linRegFromBytes data = Some l \<and> toBytes l = data"
proof -
  have len: "length (slice data 0 8) = 8" "length (slice data 8 16) = 8"
    "length (slice data 16 24) = 8" "length (slice data 24 32) = 8"
    "length (slice data 32 40) = 8"
    using assms by (simp_all add: slice_def)
  obtain x where x: "Uint64 (slice data 0 8) = Some x" "PutUint64 x = slice data 0 8"
    using PutUint64_Uint64 [OF len(1)] by blast
  obtain y where y: "Uint64 (slice data 8 16) = Some y" "PutUint64 y = slice data 8 16"
    using PutUint64_Uint64 [OF len(2)] by blast
  obtain xx where xx: "Uint64 (slice data 16 24) = Some xx" "PutUint64 xx = slice data 16 24"
    using PutUint64_Uint64 [OF len(3)] by blast
  obtain xy where xy: "Uint64 (slice data 24 32) = Some xy" "PutUint64 xy = slice data 24 32"
    using PutUint64_Uint64 [OF len(4)] by blast
  obtain c where c: "Uint64 (slice data 32 40) = Some c" "PutUint64 c = slice data 32 40"
    using PutUint64_Uint64 [OF len(5)] by blast
  have "linRegFromBytes data =
      Some \<lparr>sumX = Float64frombits x, sumY = Float64frombits y,
             sumXX = Float64frombits xx, sumXY = Float64frombits xy, cnt = c\<rparr>"
    using assms x(1) y(1) xx(1) xy(1) c(1) by (simp add: linRegFromBytes_def)
  moreover have "toBytes \<lparr>sumX = Float64frombits x, sumY = Float64frombits y,
             sumXX = Float64frombits xx, sumXY = Float64frombits xy, cnt = c\<rparr> = data"
    using slices_of_40 [OF assms] x(2) y(2) xx(2) xy(2) c(2) by (simp add: toBytes_def)
  ultimately show ?thesis by blast
qed

theorem linReg_toBytes_fromBytes_witness:
  "length [0x3F, 0xF0, 0, 0, 0, 0, 0, 0,  0x40, 0, 0, 0, 0, 0, 0, 0,
           0x40, 0x08, 0, 0, 0, 0, 0, 0,  0x7F, 0xF8, 0, 0, 0, 0, 0, 1,
           0, 0, 0, 0, 0, 0, 0, 100 :: byte] = 40 \<and>
   (\<exists>l. linRegFromBytes
           [0x3F, 0xF0, 0, 0, 0, 0, 0, 0,  0x40, 0, 0, 0, 0, 0, 0, 0,
            0x40, 0x08, 0, 0, 0, 0, 0, 0,  0x7F, 0xF8, 0, 0, 0, 0, 0, 1,
            0, 0, 0, 0, 0, 0, 0, 100] = Some l \<and>
        toBytes l =
           [0x3F, 0xF0, 0, 0, 0, 0, 0, 0,  0x40, 0, 0, 0, 0, 0, 0, 0,
            0x40, 0x08, 0, 0, 0, 0, 0, 0,  0x7F, 0xF8, 0, 0, 0, 0, 0, 1,
            0, 0, 0, 0, 0, 0, 0, 100])"
proof -
  have h: "length [0x3F, 0xF0, 0, 0, 0, 0, 0, 0,  0x40, 0, 0, 0, 0, 0, 0, 0,
           0x40, 0x08, 0, 0, 0, 0, 0, 0,  0x7F, 0xF8, 0, 0, 0, 0, 0, 1,
           0, 0, 0, 0, 0, 0, 0, 100 :: byte] = 40" by simp
  show ?thesis using h linReg_toBytes_fromBytes [OF h] by blast
qed

section \<open>Proofs: the CHT builder\<close>

lemma byte_bits:
  fixes v w :: "64 word"
  assumes "(ucast (drop_bit k v) :: 8 word) = ucast (drop_bit k w)" and "k \<le> i" "i < k + 8"
  shows "bit v i = bit w i"
proof -
  have "bit (ucast (drop_bit k v) :: 8 word) (i - k) = bit (ucast (drop_bit k w) :: 8 word) (i - k)"
    using assms(1) by simp
  moreover have "i - k < 8" using assms(2,3) by arith
  ultimately show ?thesis using assms(2) by (simp add: bit_simps)
qed

lemma PutUint64_inj:
  assumes "PutUint64 n = PutUint64 m"
  shows "n = m"
proof (rule bit_word_eqI)
  fix i assume "i < LENGTH(64)"
  then have i: "i < 64" by simp
  from assms have b:
    "(ucast (drop_bit 56 n) :: 8 word) = ucast (drop_bit 56 m)"
    "(ucast (drop_bit 48 n) :: 8 word) = ucast (drop_bit 48 m)"
    "(ucast (drop_bit 40 n) :: 8 word) = ucast (drop_bit 40 m)"
    "(ucast (drop_bit 32 n) :: 8 word) = ucast (drop_bit 32 m)"
    "(ucast (drop_bit 24 n) :: 8 word) = ucast (drop_bit 24 m)"
    "(ucast (drop_bit 16 n) :: 8 word) = ucast (drop_bit 16 m)"
    "(ucast (drop_bit 8 n) :: 8 word) = ucast (drop_bit 8 m)"
    "(ucast (drop_bit 0 n) :: 8 word) = ucast (drop_bit 0 m)"
    by (simp_all add: PutUint64_def)
  from i consider "i < 8" | "8 \<le> i" "i < 16" | "16 \<le> i" "i < 24" | "24 \<le> i" "i < 32"
    | "32 \<le> i" "i < 40" | "40 \<le> i" "i < 48" | "48 \<le> i" "i < 56" | "56 \<le> i" "i < 64"
    by linarith
  then show "bit n i = bit m i"
  proof cases
    case 1 then show ?thesis using byte_bits [OF b(8), of i] by simp
  next
    case 2 then show ?thesis using byte_bits [OF b(7), of i] by simp
  next
    case 3 then show ?thesis using byte_bits [OF b(6), of i] by simp
  next
    case 4 then show ?thesis using byte_bits [OF b(5), of i] by simp
  next
    case 5 then show ?thesis using byte_bits [OF b(4), of i] by simp
  next
    case 6 then show ?thesis using byte_bits [OF b(3), of i] by simp
  next
    case 7 then show ?thesis using byte_bits [OF b(2), of i] by simp
  next
    case 8 then show ?thesis using byte_bits [OF b(1), of i] by simp
  qed
qed



lemma Uint64_PutUint64: "Uint64 (PutUint64 v) = Some v"
proof -
  have "length (PutUint64 v) = 8" by (simp add: PutUint64_def)
  from PutUint64_Uint64 [OF this] obtain w where
    w: "Uint64 (PutUint64 v) = Some w" "PutUint64 w = PutUint64 v" by blast
  from PutUint64_inj [OF w(2)] w(1) show ?thesis by simp
qed

lemma readLastChtNum_stored: "kv cdb lastChtKey = Some (PutUint64 L) \<Longrightarrow> readLastChtNum cdb = L"
  by (simp add: readLastChtNum_def Uint64_PutUint64) (simp add: PutUint64_def)







lemma cht_keys_distinct: "chtPrefix @ PutUint64 n \<noteq> lastChtKey"
proof
  assume "chtPrefix @ PutUint64 n = lastChtKey"
  then have "length (chtPrefix @ PutUint64 n) = length lastChtKey" by simp
  then show False by (simp add: chtPrefix_def lastChtKey_def bytesOf_def PutUint64_def)
qed

lemma hash_nz: "PutUint64 n \<noteq> zeroHash"
proof
  assume "PutUint64 n = zeroHash"
  then have "length (PutUint64 n) = length zeroHash" by simp
  then show False by (simp add: PutUint64_def zeroHash_def)
qed




lemma cht_hash_ex_facts:
  "length (cht_hash_ex t) = 32" "cht_hash_ex t \<noteq> zeroHash"
proof -
  show "length (cht_hash_ex t) = 32" by (simp add: cht_hash_ex_def)
  have "last (cht_hash_ex t) \<noteq> last zeroHash" by (simp add: cht_hash_ex_def zeroHash_def)
  then show "cht_hash_ex t \<noteq> zeroHash" by auto
qed

lemma BytesToHash_32: "length b = 32 \<Longrightarrow> BytesToHash b = b"
  by (simp add: BytesToHash_def)




text \<open>
  When the persisted root does not open, the build starts over: the first range is
  built again, its root is stored under key 1 and \<open>LastChtNumber\<close> goes back from 2 to 1.
\<close>

lemma cht_lost_restart:
  "makeCht cht_env_chain_ex cht_db_lost_ex =
     Inr (cht_db_lost_ex\<lparr>trieNodes := (trieNodes cht_db_lost_ex)(cht_hash_ex cht_trie_ex \<mapsto> cht_trie_ex),
            kv := (kv cht_db_lost_ex)(chtPrefix @ PutUint64 1 \<mapsto> cht_hash_ex cht_trie_ex,
                                      lastChtKey \<mapsto> PutUint64 1)\<rparr>, True)"
proof -
  have n: "newChtNumOf cht_env_chain_ex (blockNumber cht_db_lost_ex (headBlockHash cht_db_lost_ex)) = 3"
    by (simp add: newChtNumOf_def chtConfirmations_def cht_env_chain_ex_def cht_db_lost_ex_def)
  have l: "kv cht_db_lost_ex lastChtKey = Some (PutUint64 2)"
    using cht_keys_distinct [of 2] by (simp add: cht_db_lost_ex_def)
  have r: "readLastChtNum cht_db_lost_ex = 2" using l by (rule readLastChtNum_stored)
  have "getChtRoot cht_db_lost_ex 2 = cht_hash_ex cht_trie_chain_ex"
    by (simp add: getChtRoot_def cht_db_lost_ex_def BytesToHash_32 cht_hash_ex_facts)
  then have "trieNew (getChtRoot cht_db_lost_ex 2) cht_db_lost_ex = None"
    by (simp add: trieNew_def cht_hash_ex_facts) (simp add: cht_db_lost_ex_def)
  then have o: "openChtTrie cht_db_lost_ex 2 = (Map.empty, 0)"
    by (simp add: openChtTrie_def)
  have i: "chtInsertRange cht_env_chain_ex cht_db_lost_ex 0 (ChtFrequency cht_env_chain_ex) Map.empty
             = Inr cht_trie_ex"
    by (simp add: chtInsertRange.simps cht_env_chain_ex_def cht_db_lost_ex_def hash_nz Let_def
        trieUpdate_def cht_trie_ex_def)
  have c: "commitCht cht_env_chain_ex cht_db_lost_ex cht_trie_ex 0 3 =
     (cht_db_lost_ex\<lparr>trieNodes := (trieNodes cht_db_lost_ex)(cht_hash_ex cht_trie_ex \<mapsto> cht_trie_ex),
            kv := (kv cht_db_lost_ex)(chtPrefix @ PutUint64 1 \<mapsto> cht_hash_ex cht_trie_ex,
                                      lastChtKey \<mapsto> PutUint64 1)\<rparr>, True)"
    by (simp add: commitCht_def Let_def storeChtRoot_def cht_env_chain_ex_def)
  have le: "\<not> (3 :: 64 word) \<le> 2" by (simp add: word_le_nat_alt)
  show ?thesis
    by (simp add: makeCht_def Let_def n r o i c le)
qed





section \<open>Proofs: the topic table\<close>

lemma thenR_cong: "m = m' \<Longrightarrow> thenR m f = thenR m' f"
  by simp

lemma thenR_Ok_iff: "thenR m f = Ok y \<longleftrightarrow> (\<exists>x. m = Ok x \<and> f x = Ok y)"
  by (cases m) auto

lemma derefN_Ok_iff: "derefN s a = Ok n \<longleftrightarrow> nodeInfos s a = Some n"
  by (auto simp add: derefN_def split: option.splits)

lemma getOrNewNode_lookup:
  assumes "getOrNewNode nd s = (na, s2)"
  shows "map_of (nodes s2) nd = Some na"
  using assms
  by (auto simp add: getOrNewNode_def Let_def update_conv' split: option.splits prod.splits)

lemma getOrNewNode_present:
  assumes "map_of (nodes s) nd = Some na"
  shows "getOrNewNode nd s = (na, s)"
  using assms by (simp add: getOrNewNode_def)

lemma acceptSerial_result:
  assumes nd: "map_of (nodes s) nd = Some na" and n: "nodeInfos s na = Some n"
  shows "acceptSerial nd na serialNo s =
     Ok (if serialNo = lastUsedTicket n then s
         else s\<lparr>nodeInfos := (nodeInfos s)(na \<mapsto> n\<lparr>lastUsedTicket := serialNo\<rparr>),
                db := (db s)(ID nd := (lastIssuedTicket n, serialNo))\<rparr>)"
  using nd n
  by (simp add: acceptSerial_def derefN_def storeTicket_def getOrNewNode_def)

lemma regTopicsLoop_result:
  assumes "i + length wps \<le> length tps"
  shows "regTopicsLoop ct ents tps wps i acc =
     Ok (acc @ map fst (filter (\<lambda>(tp, wp). inRegWindow ct wp \<and> map_of ents tp = None)
                          (zip (drop i tps) wps)))"
  using assms
proof (induction wps arbitrary: i acc)
  case Nil
  then show ?case by simp
next
  case (Cons wp wps)
  then have i: "i < length tps" and rest: "Suc i + length wps \<le> length tps" by simp_all
  have d: "drop i tps = tps ! i # drop (Suc i) tps"
    using i by (simp add: Cons_nth_drop_Suc)
  show ?case
    using i Cons.IH [OF rest] by (simp add: d)
qed

lemma inRegWindow_iff:
  "inRegWindow ct wp \<longleftrightarrow> - 1 \<le> sint (ct - wp) \<and> sint (ct - wp) \<le> 11"
  by (simp add: inRegWindow_def regTimeWindow_def Let_def)

lemma registerTicket_result:
  assumes n: "nodeInfos s na = Some n" and len: "length waitPeriods \<le> length tps"
  shows "registerTicket w nd na tps waitPeriods expiry s =
     (let regTopics = map fst (filter (\<lambda>(tp, wp). inRegWindow (currTimeOf (NanoTime w)) wp \<and>
                                         map_of (entries_n n) tp = None) (zip tps waitPeriods))
      in if regTopics = [] then Ok (False, s)
         else thenR (AddEntries w nd regTopics expiry s) (\<lambda>s4.
              thenR (derefN s4 na) (\<lambda>n4.
              Ok (True, s4\<lparr>nodeInfos :=
                    (nodeInfos s4)(na \<mapsto> n4\<lparr>noTicketUntil := NanoTime w + noTicketTimeout w\<rparr>)\<rparr>))))"
proof -
  have "regTopicsLoop (currTimeOf (NanoTime w)) (entries_n n) tps waitPeriods 0 [] =
      Ok ([] @ map fst (filter (\<lambda>(tp, wp). inRegWindow (currTimeOf (NanoTime w)) wp \<and>
                                         map_of (entries_n n) tp = None) (zip (drop 0 tps) waitPeriods)))"
    by (rule regTopicsLoop_result) (use len in simp)
  then show ?thesis
    using n by (simp add: registerTicket_def derefN_def Let_def)
qed

lemma useTicket_unfold:
  assumes gc: "collectGarbage w s = Ok s1"
    and nd: "getOrNewNode nd s1 = (na, s2)"
    and n: "nodeInfos s2 na = Some n"
  shows "useTicket w nd serialNo tps waitPeriods expiry s =
     (if serialNo < lastUsedTicket n then Ok (False, s2)
      else thenR (acceptSerial nd na serialNo s2) (\<lambda>s3.
           registerTicket w nd na tps waitPeriods expiry s3))"
  using gc nd n by (simp add: useTicket_def derefN_def)

lemma acceptSerial_node:
  assumes nd: "map_of (nodes s) nd = Some na" and n: "nodeInfos s na = Some n"
    and acc: "acceptSerial nd na serialNo s = Ok s3"
  shows "\<exists>n3. nodeInfos s3 na = Some n3 \<and> entries_n n3 = entries_n n"
  using acc n unfolding acceptSerial_result [OF nd n] by (auto split: if_splits)

lemma registerTicket_False:
  assumes "registerTicket w nd na tps waitPeriods expiry s = Ok (False, s')"
  shows "s' = s"
proof -
  obtain n where n: "derefN s na = Ok n"
    using assms by (auto simp add: registerTicket_def Let_def thenR_Ok_iff)
  obtain rt where rt: "regTopicsLoop (currTimeOf (NanoTime w)) (entries_n n) tps waitPeriods 0 [] = Ok rt"
    using assms n by (auto simp add: registerTicket_def Let_def thenR_Ok_iff)
  show ?thesis
  proof (cases "rt = []")
    case True
    then show ?thesis using assms n rt by (simp add: registerTicket_def Let_def)
  next
    case False
    then have "thenR (AddEntries w nd rt expiry s) (\<lambda>s4.
        thenR (derefN s4 na) (\<lambda>n4.
        Ok (True, s4\<lparr>nodeInfos :=
              (nodeInfos s4)(na \<mapsto> n4\<lparr>noTicketUntil := NanoTime w + noTicketTimeout w\<rparr>)\<rparr>))) =
       Ok (False, s')"
      using assms n rt by (simp add: registerTicket_def Let_def)
    then show ?thesis by (auto simp add: thenR_Ok_iff)
  qed
qed

lemma issueSerial_result:
  assumes nd: "map_of (nodes s) nd = Some na" and n: "nodeInfos s na = Some n"
  shows "issueSerial nd na s =
     Ok (s\<lparr>nodeInfos := (nodeInfos s)(na \<mapsto> n\<lparr>lastIssuedTicket := lastIssuedTicket n + 1\<rparr>),
           db := (db s)(ID nd := (lastIssuedTicket n + 1, lastUsedTicket n))\<rparr>)"
  using nd n
  by (simp add: issueSerial_def derefN_def storeTicket_def getOrNewNode_def)

lemma waitUntilLoop_result:
  assumes "waitUntilLoop s ct tps = Ok wu"
  shows "list_all2 (\<lambda>tp u. \<exists>wt. topicWait s tp = Ok wt \<and> u = ct + ucast (wt div 1000000000)) tps wu"
  using assms
proof (induction tps arbitrary: wu)
  case Nil
  then show ?case by simp
next
  case (Cons tp tps)
  from Cons.prems obtain wt rest where
    wt: "topicWait s tp = Ok wt" and rest: "waitUntilLoop s ct tps = Ok rest"
    and wu: "wu = (ct + ucast (wt div 1000000000)) # rest"
    by (auto simp add: thenR_Ok_iff)
  show ?case using wt wu Cons.IH [OF rest] by auto
qed

lemmas tt_eval = useTicket_def acceptSerial_def registerTicket_def getTicket_def issueSerial_def
  collectGarbage_def getOrNewNode_def derefN_def derefT_def derefQ_def
  storeTicket_def AddEntries_def addEntry_def getOrNewTopic_def heap_Push_def tq_Push_def up_def
  Len_def tq_at_def Less_def Swap_def registered_def nextWaitPeriod_def hasMinimumWaitPeriod_def
  deleteEntry_def checkDeleteNode_def checkDeleteTopic_def heap_Remove_def tq_Pop_def down_def
  topicWait_def entryCount_def
  NewTopicTable_def currTimeOf_def inRegWindow_def regTimeWindow_def gcInterval_def minWaitPeriod_def
  MaxEntries_def MaxEntriesPerTopic_def quo_def Let_def
  world_ex_def node_ex_def db_ex_def table_gc_ex_def nodeInfo_ex_def table_node_ex_def
  up_loop.simps down_loop.simps

lemma table_ex_facts:
  "collectGarbage world_ex (NewTopicTable db_ex) = Ok table_gc_ex"
  "getOrNewNode node_ex table_gc_ex = (0, table_node_ex)"
  "nodeInfos table_node_ex 0 = Some nodeInfo_ex"
  by (simp_all add: tt_eval)

text \<open>
  C2 (as amended). Whenever \<open>useTicket\<close> returns false, no entry is registered,
  \<open>noTicketUntil\<close> is not set and \<open>lastIssuedTicket\<close> is not modified: apart from the
  serial number, the state is the one left by the garbage collection and the node lookup
  that \<open>useTicket\<close> starts with (the lookup creates the record of an unknown node). The
  serial number is consumed all the same: when it is above \<open>lastUsedTicket\<close> (an in-order
  serial of which no wait period passes), \<open>lastUsedTicket\<close> is set to it and persisted;
  only a serial at or below \<open>lastUsedTicket\<close> leaves the counters as they were.
\<close>

theorem useTicket_refused:
  assumes "useTicket w nd serialNo tps waitPeriods expiry s = Ok (False, s')"
  shows "\<exists>s1 na s2 n.
      collectGarbage w s = Ok s1 \<and> getOrNewNode nd s1 = (na, s2) \<and> nodeInfos s2 na = Some n \<and>
      s' = (if serialNo \<le> lastUsedTicket n then s2
            else s2\<lparr>nodeInfos := (nodeInfos s2)(na \<mapsto> n\<lparr>lastUsedTicket := serialNo\<rparr>),
                    db := (db s2)(ID nd := (lastIssuedTicket n, serialNo))\<rparr>) \<and>
      topics s' = topics s1 \<and> topicInfos s' = topicInfos s1 \<and>
      globalEntries s' = globalEntries s1 \<and> requested s' = requested s1 \<and>
      rqItems s' = rqItems s1 \<and> nodes s' = nodes s2 \<and>
      (\<exists>n'. nodeInfos s' na = Some n' \<and> entries_n n' = entries_n n \<and>
            noTicketUntil n' = noTicketUntil n \<and> lastIssuedTicket n' = lastIssuedTicket n)"
proof -
  from assms obtain s1 where gc: "collectGarbage w s = Ok s1"
    by (auto simp add: useTicket_def thenR_Ok_iff)
  obtain na s2 where nd: "getOrNewNode nd s1 = (na, s2)"
    by (cases "getOrNewNode nd s1") auto
  from assms gc nd obtain n where n: "nodeInfos s2 na = Some n"
    by (auto simp add: useTicket_def thenR_Ok_iff derefN_Ok_iff)
  have look: "map_of (nodes s2) nd = Some na" using nd by (rule getOrNewNode_lookup)
  have frame: "topics s2 = topics s1 \<and> topicInfos s2 = topicInfos s1 \<and>
      globalEntries s2 = globalEntries s1 \<and> requested s2 = requested s1 \<and> rqItems s2 = rqItems s1"
    using nd by (auto simp add: getOrNewNode_def Let_def split: option.splits prod.splits)
  note unf = assms [unfolded useTicket_unfold [OF gc nd n]]
  have s': "s' = (if serialNo \<le> lastUsedTicket n then s2
            else s2\<lparr>nodeInfos := (nodeInfos s2)(na \<mapsto> n\<lparr>lastUsedTicket := serialNo\<rparr>),
                    db := (db s2)(ID nd := (lastIssuedTicket n, serialNo))\<rparr>)"
  proof (cases "serialNo < lastUsedTicket n")
    case True
    then show ?thesis using unf by simp
  next
    case False
    with unf obtain s3 where acc: "acceptSerial nd na serialNo s2 = Ok s3"
      and reg: "registerTicket w nd na tps waitPeriods expiry s3 = Ok (False, s')"
      by (auto simp add: thenR_Ok_iff)
    have "s' = s3" using reg by (rule registerTicket_False)
    with acc have "s' = (if serialNo = lastUsedTicket n then s2
         else s2\<lparr>nodeInfos := (nodeInfos s2)(na \<mapsto> n\<lparr>lastUsedTicket := serialNo\<rparr>),
                db := (db s2)(ID nd := (lastIssuedTicket n, serialNo))\<rparr>)"
      by (simp add: acceptSerial_result [OF look n])
    moreover have "serialNo \<le> lastUsedTicket n \<longleftrightarrow> serialNo = lastUsedTicket n"
      using False by auto
    ultimately show ?thesis by simp
  qed
  have rest: "topics s' = topics s2 \<and> topicInfos s' = topicInfos s2 \<and>
      globalEntries s' = globalEntries s2 \<and> requested s' = requested s2 \<and>
      rqItems s' = rqItems s2 \<and> nodes s' = nodes s2 \<and>
      (\<exists>n'. nodeInfos s' na = Some n' \<and> entries_n n' = entries_n n \<and>
            noTicketUntil n' = noTicketUntil n \<and> lastIssuedTicket n' = lastIssuedTicket n)"
    using n by (simp add: s')
  show ?thesis using gc nd n s' frame rest by auto
qed

theorem useTicket_refused_witness:
  "\<exists>s' s1 na s2 n.
      useTicket world_ex node_ex 5 [''A''] [50] 3600000000000 (NewTopicTable db_ex) = Ok (False, s') \<and>
      collectGarbage world_ex (NewTopicTable db_ex) = Ok s1 \<and>
      getOrNewNode node_ex s1 = (na, s2) \<and> nodeInfos s2 na = Some n \<and>
      s' = (if (5 :: 32 word) \<le> lastUsedTicket n then s2
            else s2\<lparr>nodeInfos := (nodeInfos s2)(na \<mapsto> n\<lparr>lastUsedTicket := 5\<rparr>),
                    db := (db s2)(ID node_ex := (lastIssuedTicket n, 5))\<rparr>) \<and>
      topics s' = topics s1"
proof -
  have "\<exists>s'. useTicket world_ex node_ex 5 [''A''] [50] 3600000000000 (NewTopicTable db_ex) = Ok (False, s')"
    by (simp add: tt_eval cong: thenR_cong)
  then obtain s' where
    h: "useTicket world_ex node_ex 5 [''A''] [50] 3600000000000 (NewTopicTable db_ex) = Ok (False, s')"
    by blast
  from useTicket_refused [OF h] h show ?thesis by blast
qed

theorem useTicket_state_change_counterexample:
  "\<exists>s' n. useTicket world_ex node_ex 5 [''A''] [50] 3600000000000 (NewTopicTable db_ex) = Ok (False, s') \<and>
     nodes (NewTopicTable db_ex) = [] \<and> db (NewTopicTable db_ex) (ID node_ex) = (0, 0) \<and>
     map_of (nodes s') node_ex = Some 0 \<and> nodeInfos s' 0 = Some n \<and> lastUsedTicket n = 5 \<and>
     db s' (ID node_ex) = (0, 5)"
  by (simp add: tt_eval cong: thenR_cong)

text \<open>
  C5 (as amended). For a serial number that is not out of order, \<open>useTicket\<close> hands to
  \<open>AddEntries\<close> exactly the topics whose declared wait period \<open>w\<close> satisfies
  \<open>-1 \<le> int32(currTime - w) \<le> regTimeWindow + 1 = 11\<close> and for which the node has no
  active entry, and returns false when there is none. The bounds are inclusive: a wait
  period of \<open>currTime - 10\<close> and one of \<open>currTime - 11\<close> pass, one of \<open>currTime - 12\<close> is
  rejected.
\<close>

theorem useTicket_admission:
  assumes gc: "collectGarbage w s = Ok s1"
    and nd: "getOrNewNode nd s1 = (na, s2)"
    and n: "nodeInfos s2 na = Some n"
    and serial: "\<not> serialNo < lastUsedTicket n"
    and len: "length waitPeriods \<le> length tps"
  shows "\<exists>s3. acceptSerial nd na serialNo s2 = Ok s3 \<and>
     useTicket w nd serialNo tps waitPeriods expiry s =
       (let regTopics =
              map fst (filter (\<lambda>(tp, wp). inRegWindow (currTimeOf (NanoTime w)) wp \<and>
                                         map_of (entries_n n) tp = None) (zip tps waitPeriods))
        in if regTopics = [] then Ok (False, s3)
           else thenR (AddEntries w nd regTopics expiry s3) (\<lambda>s4.
                thenR (derefN s4 na) (\<lambda>n4.
                Ok (True, s4\<lparr>nodeInfos :=
                      (nodeInfos s4)(na \<mapsto> n4\<lparr>noTicketUntil := NanoTime w + noTicketTimeout w\<rparr>)\<rparr>)))) \<and>
     (\<forall>wp. inRegWindow (currTimeOf (NanoTime w)) wp =
           (- 1 \<le> sint (currTimeOf (NanoTime w) - wp) \<and> sint (currTimeOf (NanoTime w) - wp) \<le> 11)) \<and>
     inRegWindow (currTimeOf (NanoTime w)) (currTimeOf (NanoTime w) - 10) \<and>
     inRegWindow (currTimeOf (NanoTime w)) (currTimeOf (NanoTime w) - 11) \<and>
     \<not> inRegWindow (currTimeOf (NanoTime w)) (currTimeOf (NanoTime w) - 12)"
proof -
  have look: "map_of (nodes s2) nd = Some na" using nd by (rule getOrNewNode_lookup)
  obtain s3 where acc: "acceptSerial nd na serialNo s2 = Ok s3"
    using acceptSerial_result [OF look n] by blast
  obtain n3 where n3: "nodeInfos s3 na = Some n3" "entries_n n3 = entries_n n"
    using acceptSerial_node [OF look n acc] by blast
  have "useTicket w nd serialNo tps waitPeriods expiry s =
      registerTicket w nd na tps waitPeriods expiry s3"
    using serial acc by (simp add: useTicket_unfold [OF gc nd n])
  also note registerTicket_result [OF n3(1) len]
  finally have main: "useTicket w nd serialNo tps waitPeriods expiry s =
       (let regTopics =
              map fst (filter (\<lambda>(tp, wp). inRegWindow (currTimeOf (NanoTime w)) wp \<and>
                                         map_of (entries_n n) tp = None) (zip tps waitPeriods))
        in if regTopics = [] then Ok (False, s3)
           else thenR (AddEntries w nd regTopics expiry s3) (\<lambda>s4.
                thenR (derefN s4 na) (\<lambda>n4.
                Ok (True, s4\<lparr>nodeInfos :=
                      (nodeInfos s4)(na \<mapsto> n4\<lparr>noTicketUntil := NanoTime w + noTicketTimeout w\<rparr>)\<rparr>))))"
    by (simp add: n3(2))
  have w10: "inRegWindow ct (ct - 10)" and w11: "inRegWindow ct (ct - 11)"
    and w12: "\<not> inRegWindow ct (ct - 12)" for ct
    by (simp_all add: inRegWindow_iff)
  show ?thesis
    using acc main w10 w11 w12 inRegWindow_iff by blast
qed

theorem useTicket_admission_witness:
  "collectGarbage world_ex (NewTopicTable db_ex) = Ok table_gc_ex \<and>
   getOrNewNode node_ex table_gc_ex = (0, table_node_ex) \<and>
   nodeInfos table_node_ex 0 = Some nodeInfo_ex \<and>
   \<not> (0 :: 32 word) < lastUsedTicket nodeInfo_ex \<and>
   length [89 :: 32 word] \<le> length [''A''] \<and>
   (\<exists>s3. acceptSerial node_ex 0 0 table_node_ex = Ok s3 \<and>
      useTicket world_ex node_ex 0 [''A''] [89] 3600000000000 (NewTopicTable db_ex) =
        thenR (AddEntries world_ex node_ex [''A''] 3600000000000 s3) (\<lambda>s4.
        thenR (derefN s4 0) (\<lambda>n4.
        Ok (True, s4\<lparr>nodeInfos :=
              (nodeInfos s4)(0 \<mapsto> n4\<lparr>noTicketUntil := NanoTime world_ex + noTicketTimeout world_ex\<rparr>)\<rparr>))))"
proof -
  have s: "\<not> (0 :: 32 word) < lastUsedTicket nodeInfo_ex" by (simp add: nodeInfo_ex_def)
  have l: "length [89 :: 32 word] \<le> length [''A'']" by simp
  have f: "map fst (filter (\<lambda>(tp, wp). inRegWindow (currTimeOf (NanoTime world_ex)) wp \<and>
                map_of (entries_n nodeInfo_ex) tp = None) (zip [''A''] [89])) = [''A'']"
    by (simp add: tt_eval)
  from useTicket_admission [OF table_ex_facts s l, of 3600000000000]
  show ?thesis using table_ex_facts s l unfolding f Let_def by auto
qed

theorem useTicket_window_counterexample:
  "\<exists>s'. useTicket world_ex node_ex 0 [''A''] [currTimeOf (NanoTime world_ex) - 11] 3600000000000
           (NewTopicTable db_ex) = Ok (True, s') \<and>
        entryCount s' ''A'' = 1"
  by (simp add: tt_eval cong: thenR_cong)

text \<open>
  C7 (as amended). After garbage collection and node lookup, if \<open>noTicketUntil > now\<close>
  then \<open>getTicket\<close> returns serial 0 and no wait times, leaves the ticket counters and
  the node database as they are, but still returns the current time in seconds as
  \<open>currTime\<close> (not zero). Otherwise it increments \<open>lastIssuedTicket\<close>, persists both
  counters, returns the new serial, and for each topic \<open>currTime\<close> plus the seconds of
  the topic's \<open>waitPeriod\<close>, or of \<open>minWaitPeriod\<close> for an unknown topic.
\<close>

theorem getTicket_result:
  assumes gc: "collectGarbage w s = Ok s1"
    and nd: "getOrNewNode nd s1 = (na, s2)"
    and n: "nodeInfos s2 na = Some n"
  shows "\<exists>s4. s4 = s2\<lparr>nodeInfos := (nodeInfos s2)(na \<mapsto> n\<lparr>lastIssuedTicket := lastIssuedTicket n + 1\<rparr>),
                     db := (db s2)(ID nd := (lastIssuedTicket n + 1, lastUsedTicket n))\<rparr> \<and>
     getTicket w nd tps s =
       (if noTicketUntil n > NanoTime w then Ok ((0, currTimeOf (NanoTime w), []), s2)
        else thenR (waitUntilLoop s4 (currTimeOf (NanoTime w)) tps) (\<lambda>waitUntil.
             Ok ((lastIssuedTicket n + 1, currTimeOf (NanoTime w), waitUntil), s4))) \<and>
     (\<forall>wu. waitUntilLoop s4 (currTimeOf (NanoTime w)) tps = Ok wu \<longrightarrow>
        list_all2 (\<lambda>tp u. \<exists>wt. topicWait s4 tp = Ok wt \<and>
                              u = currTimeOf (NanoTime w) + ucast (wt div 1000000000)) tps wu) \<and>
     (\<forall>tp. map_of (topics s4) tp = None \<longrightarrow> topicWait s4 tp = Ok minWaitPeriod) \<and>
     (\<forall>tp ta te. map_of (topics s4) tp = Some ta \<and> topicInfos s4 ta = Some te \<longrightarrow>
        topicWait s4 tp = Ok (waitPeriod (wcl te)))"
proof -
  define s4 where "s4 = s2\<lparr>nodeInfos := (nodeInfos s2)(na \<mapsto> n\<lparr>lastIssuedTicket := lastIssuedTicket n + 1\<rparr>),
                     db := (db s2)(ID nd := (lastIssuedTicket n + 1, lastUsedTicket n))\<rparr>"
  have look: "map_of (nodes s2) nd = Some na" using nd by (rule getOrNewNode_lookup)
  have iss: "issueSerial nd na s2 = Ok s4"
    unfolding s4_def by (rule issueSerial_result [OF look n])
  have n4: "derefN s4 na = Ok (n\<lparr>lastIssuedTicket := lastIssuedTicket n + 1\<rparr>)"
    by (simp add: s4_def derefN_def)
  have main: "getTicket w nd tps s =
       (if noTicketUntil n > NanoTime w then Ok ((0, currTimeOf (NanoTime w), []), s2)
        else thenR (waitUntilLoop s4 (currTimeOf (NanoTime w)) tps) (\<lambda>waitUntil.
             Ok ((lastIssuedTicket n + 1, currTimeOf (NanoTime w), waitUntil), s4)))"
    using gc nd n iss n4 by (simp add: getTicket_def Let_def derefN_def)
  have a: "\<forall>tp. map_of (topics s4) tp = None \<longrightarrow> topicWait s4 tp = Ok minWaitPeriod"
    by (simp add: topicWait_def)
  have b: "\<forall>tp ta te. map_of (topics s4) tp = Some ta \<and> topicInfos s4 ta = Some te \<longrightarrow>
        topicWait s4 tp = Ok (waitPeriod (wcl te))"
    by (simp add: topicWait_def derefT_def)
  show ?thesis
    using main a b waitUntilLoop_result s4_def by blast
qed

theorem getTicket_result_witness:
  "collectGarbage world_ex (NewTopicTable db_ex) = Ok table_gc_ex \<and>
   getOrNewNode node_ex table_gc_ex = (0, table_node_ex) \<and>
   nodeInfos table_node_ex 0 = Some nodeInfo_ex \<and>
   (\<exists>s4. getTicket world_ex node_ex [''A''] (NewTopicTable db_ex) = Ok ((1, 100, [160]), s4) \<and>
         db s4 (ID node_ex) = (1, 0))"
proof -
  from getTicket_result [OF table_ex_facts, of "[''A'']"]
  obtain s4 where s4: "s4 = table_node_ex\<lparr>nodeInfos := (nodeInfos table_node_ex)(0 \<mapsto>
          nodeInfo_ex\<lparr>lastIssuedTicket := lastIssuedTicket nodeInfo_ex + 1\<rparr>),
        db := (db table_node_ex)(ID node_ex := (lastIssuedTicket nodeInfo_ex + 1, lastUsedTicket nodeInfo_ex))\<rparr>"
    and g: "getTicket world_ex node_ex [''A''] (NewTopicTable db_ex) =
       (if noTicketUntil nodeInfo_ex > NanoTime world_ex
        then Ok ((0, currTimeOf (NanoTime world_ex), []), table_node_ex)
        else thenR (waitUntilLoop s4 (currTimeOf (NanoTime world_ex)) [''A'']) (\<lambda>waitUntil.
             Ok ((lastIssuedTicket nodeInfo_ex + 1, currTimeOf (NanoTime world_ex), waitUntil), s4)))"
    by blast
  have "getTicket world_ex node_ex [''A''] (NewTopicTable db_ex) = Ok ((1, 100, [160]), s4)"
    unfolding g by (simp add: s4 tt_eval)
  moreover have "db s4 (ID node_ex) = (1, 0)" by (simp add: s4 tt_eval)
  ultimately show ?thesis using table_ex_facts by blast
qed

theorem getTicket_zero_counterexample:
  "\<exists>s1 s2 n. useTicket world_ex node_ex 0 [''A''] [100] 3600000000000 (NewTopicTable db_ex) = Ok (True, s1) \<and>
     map_of (nodes s1) node_ex = Some 0 \<and> nodeInfos s1 0 = Some n \<and> noTicketUntil n > NanoTime world_ex \<and>
     getTicket world_ex node_ex [''A''] s1 = Ok ((0, 100, []), s2)"
  by (simp add: tt_eval cong: thenR_cong)

text \<open>
  C8. The code does not keep the property: when the node already advertises another topic
  and its \<open>noTicketUntil\<close> has passed, \<open>AddEntries\<close> clears the old entry, which drops the
  node record from the table while \<open>useTicket\<close> and \<open>AddEntries\<close> still write to it. The
  second call with the same serial and topics then finds a fresh record without active
  entries and registers the topic again. In the scenario \<open>useTicket_twice\<close> both calls
  return true, and topic \<open>B\<close> ends with two entries of the same node, whatever the
  floating point step \<open>sw\<close> computes.
\<close>

theorem useTicket_twice_registers_twice: "useTicket_twice sw = Ok (True, True, 2, 2)"
  unfolding useTicket_twice_def
  by (simp add: tt_eval cong: thenR_cong)

section \<open>Proofs: the ticket store\<close>

subsection \<open>Arithmetic of buckets\<close>

lemma inRange64_wrap64: "inRange64 (wrap64 x)"
  unfolding inRange64_def wrap64_def
  using pos_mod_bound [of "2 ^ 64" "x + 2 ^ 63"] pos_mod_sign [of "2 ^ 64" "x + 2 ^ 63"]
  by simp

lemma wrap64_mod: "wrap64 x mod 2 ^ 64 = x mod 2 ^ 64"
proof -
  have "wrap64 x = (x + 2 ^ 63) mod 2 ^ 64 - 2 ^ 63" by (simp add: wrap64_def)
  then have "wrap64 x mod 2 ^ 64 = ((x + 2 ^ 63) mod 2 ^ 64 - 2 ^ 63) mod 2 ^ 64" by simp
  also have "\<dots> = (x + 2 ^ 63 - 2 ^ 63) mod 2 ^ 64" by (rule mod_diff_left_eq)
  finally show ?thesis by simp
qed

lemma inRange64_quo: "inRange64 t \<Longrightarrow> inRange64 (quo t ticketTimeBucketLen)"
proof -
  assume r: "inRange64 t"
  have a: "\<bar>t\<bar> div 60000000000 \<le> \<bar>t\<bar>"
    by (metis abs_ge_zero div_by_1 zdiv_mono2 zero_less_one one_le_numeral)
  have b: "\<bar>t\<bar> div 60000000000 < 2 ^ 63"
  proof -
    from r have "\<bar>t\<bar> \<le> 2 ^ 63" by (simp add: inRange64_def abs_if)
    then have "\<bar>t\<bar> div 60000000000 \<le> 2 ^ 63 div (60000000000 :: int)" by (rule zdiv_mono1) simp
    also have "\<dots> < 2 ^ 63" by simp
    finally show ?thesis .
  qed
  have c: "0 \<le> \<bar>t\<bar> div 60000000000" by simp
  show ?thesis
    unfolding quo_def ticketTimeBucketLen_def inRange64_def
    using b c by (cases "t < 0"; cases "t = 0"; simp add: sgn_if)
qed

lemma scan_measure:
  assumes "inRange64 b" "inRange64 k" "b \<noteq> k"
  shows "nat ((k - wrap64 (b + 1)) mod 2 ^ 64) < nat ((k - b) mod 2 ^ 64)"
proof -
  have "(k - wrap64 (b + 1)) mod 2 ^ 64 = (k - (b + 1)) mod 2 ^ 64"
    using wrap64_mod [of "b + 1"] by (metis mod_diff_right_eq)
  moreover have "(k - b) mod 2 ^ 64 \<noteq> 0"
  proof
    assume "(k - b) mod 2 ^ 64 = 0"
    then have "(2 ^ 64 :: int) dvd k - b" by (simp add: dvd_eq_mod_eq_0)
    then obtain q where q: "k - b = 2 ^ 64 * q" by (auto simp add: dvd_def)
    from assms have "- (2 ^ 64) < k - b" "k - b < 2 ^ 64" by (simp_all add: inRange64_def)
    with q have "q = 0" by (cases "q \<le> - 1"; cases "q \<ge> 1"; simp) 
    with q assms show False by simp
  qed
  moreover have "0 \<le> (k - b) mod 2 ^ 64" by simp
  moreover have "(k - (b + 1)) mod 2 ^ 64 = ((k - b) mod 2 ^ 64 - 1) mod 2 ^ 64"
    by (simp add: mod_diff_left_eq diff_diff_eq)
  moreover have "(k - b) mod 2 ^ 64 < (2 ^ 64 :: int)" by simp
  ultimately show ?thesis by (simp add: mod_pos_pos_trivial)
qed

subsection \<open>Calls that leave the queues alone\<close>

lemma frame_refl: "frame s s"
  by (simp add: frame_def)

lemma frame_trans: "frame s s1 \<Longrightarrow> frame s1 s2 \<Longrightarrow> frame s s2"
  by (simp add: frame_def)

lemma adjustTopic_frame: "adjustTopic fl ta i tp tt s = Ok s1 \<Longrightarrow> frame s s1"
  by (auto simp add: adjustTopic_def thenR_Ok_iff frame_def)

lemma adjustIfConverging_frame: "adjustIfConverging fl ta tp i s = Ok s1 \<Longrightarrow> frame s s1"
  by (auto simp add: adjustIfConverging_def thenR_Ok_iff frame_refl
      split: option.splits if_splits dest: adjustTopic_frame)

lemma adjustConverging_frame: "adjustConverging fl ta tps i s = Ok s1 \<Longrightarrow> frame s s1"
proof (induction tps arbitrary: i s)
  case Nil
  then show ?case by (simp add: frame_refl)
next
  case (Cons tp tps)
  then show ?case
    by (auto simp add: thenR_Ok_iff intro: frame_trans dest: adjustIfConverging_frame)
qed

lemma adjustWithTicket_frame: "adjustWithTicket fl ta i oc s = Ok s1 \<Longrightarrow> frame s s1"
  by (auto simp add: adjustWithTicket_def thenR_Ok_iff frame_refl
      split: option.splits if_splits dest: adjustConverging_frame adjustTopic_frame)

lemma adjustMinRadius_frame: "adjustMinRadius t f s = Ok s1 \<Longrightarrow> frame s s1"
  by (auto simp add: adjustMinRadius_def Let_def frame_def split: if_splits)

lemma lookupNode_frame: "lookupNode fl ping target tp n i s = Ok s1 \<Longrightarrow> frame s s1"
  by (auto simp add: lookupNode_def thenR_Ok_iff Let_def frame_def
      split: option.splits if_splits dest!: adjustWithTicket_frame)

lemma lookupNodes_frame: "lookupNodes fl ping target tp ns i s = Ok s1 \<Longrightarrow> frame s s1"
proof (induction ns arbitrary: i s)
  case Nil
  then show ?case by (simp add: frame_refl)
next
  case (Cons n ns)
  then show ?case
    by (auto simp add: thenR_Ok_iff intro: frame_trans dest: lookupNode_frame)
qed

lemma registerLookupDone_frame: "registerLookupDone fl ping target tp ns s = Ok s1 \<Longrightarrow> frame s s1"
proof -
  assume "registerLookupDone fl ping target tp ns s = Ok s1"
  then obtain s0 where a: "(case ns of [] \<Rightarrow> Ok s | n # rest \<Rightarrow> adjustMinRadius target (shaPrefix n) s) = Ok s0"
    and b: "lookupNodes fl ping target tp ns 0 s0 = Ok s1"
    by (auto simp add: registerLookupDone_def thenR_Ok_iff)
  from a have "frame s s0"
    by (cases ns) (auto simp add: frame_refl dest: adjustMinRadius_frame)
  with lookupNodes_frame [OF b] show ?thesis by (blast intro: frame_trans)
qed

lemma wellFormed_frame: "frame s s1 \<Longrightarrow> wellFormed s \<Longrightarrow> wellFormed s1"
  by (simp add: frame_def wellFormed_def)

lemma validRef_heapLe: "heapLe h h1 \<Longrightarrow> validRef h ref \<Longrightarrow> validRef h1 ref"
  by (auto simp add: heapLe_def validRef_def)

lemma bucketsOk_heapLe: "heapLe h h1 \<Longrightarrow> bucketsOk h m \<Longrightarrow> bucketsOk h1 m"
  by (fastforce simp add: bucketsOk_def dest: validRef_heapLe)

lemma queueOk_heapLe: "heapLe h h1 \<Longrightarrow> queueOk h q \<Longrightarrow> queueOk h1 q"
  by (fastforce simp add: queueOk_def dest: bucketsOk_heapLe)

lemma heapLe_update: "a < length h \<Longrightarrow> regTime tk = regTime (h ! a) \<Longrightarrow> heapLe h (h[a := tk])"
  by (auto simp add: heapLe_def nth_list_update)

lemma timesOk_update:
  assumes "timesOk h" "a < length h" "regTime tk = regTime (h ! a)"
  shows "timesOk (h[a := tk])"
proof -
  have "x \<in> set (h[a := tk]) \<Longrightarrow> x = tk \<or> x \<in> set h" for x
    using set_update_subset_insert [of h a tk] by auto
  moreover have "h ! a \<in> set h" using assms(2) by simp
  ultimately show ?thesis using assms unfolding timesOk_def by metis
qed

lemma wellFormed_heap_update:
  assumes "wellFormed s" "a < length (ticketHeap s)" "regTime tk = regTime (ticketHeap s ! a)"
  shows "wellFormed (s\<lparr>ticketHeap := (ticketHeap s)[a := tk]\<rparr>)"
  using assms heapLe_update [OF assms(2,3)] timesOk_update [OF _ assms(2,3)]
  by (auto simp add: wellFormed_def dest: queueOk_heapLe validRef_heapLe)

lemma wellFormed_other:
  "tickets s1 = tickets s \<Longrightarrow> ticketHeap s1 = ticketHeap s \<Longrightarrow>
   nextTicketCached s1 = nextTicketCached s \<Longrightarrow> wellFormed s \<Longrightarrow> wellFormed s1"
  by (simp add: wellFormed_def)

lemma dropRef_wellFormed: "wellFormed s \<Longrightarrow> dropRef ta s = Ok s1 \<Longrightarrow> wellFormed s1"
proof -
  assume wf: "wellFormed s" and d: "dropRef ta s = Ok s1"
  from d have lt: "ta < length (ticketHeap s)"
    by (auto simp add: dropRef_def thenR_Ok_iff derefTk_def split: if_splits)
  define tk1 where "tk1 = (ticketHeap s ! ta)\<lparr>refCnt := wrap64 (refCnt (ticketHeap s ! ta) - 1)\<rparr>"
  have "wellFormed (s\<lparr>ticketHeap := (ticketHeap s)[ta := tk1]\<rparr>)"
    by (rule wellFormed_heap_update [OF wf lt]) (simp add: tk1_def)
  moreover from d lt have "tickets s1 = tickets (s\<lparr>ticketHeap := (ticketHeap s)[ta := tk1]\<rparr>)"
    "ticketHeap s1 = ticketHeap (s\<lparr>ticketHeap := (ticketHeap s)[ta := tk1]\<rparr>)"
    "nextTicketCached s1 = nextTicketCached (s\<lparr>ticketHeap := (ticketHeap s)[ta := tk1]\<rparr>)"
    by (auto simp add: dropRef_def thenR_Ok_iff derefTk_def Let_def tk1_def split: if_splits)
  ultimately show ?thesis by (rule wellFormed_other [rotated 3])
qed

lemma dropRefs_wellFormed: "wellFormed s \<Longrightarrow> dropRefs refs s = Ok s1 \<Longrightarrow> wellFormed s1"
proof (induction refs arbitrary: s)
  case Nil
  then show ?case by simp
next
  case (Cons ref refs)
  then show ?case by (auto simp add: thenR_Ok_iff dest: dropRef_wellFormed)
qed

lemma set_update_subset: "set (AList.update k v al) \<subseteq> insert (k, v) (set al)"
  by (induction al) auto

lemma set_delete_subset: "set (AList.delete k al) \<subseteq> set al"
  by (auto simp add: AList.delete_eq)

lemma bucketsOk_update:
  "bucketsOk h m \<Longrightarrow> l \<noteq> [] \<Longrightarrow> inRange64 k \<Longrightarrow> \<forall>ref \<in> set l. validRef h ref \<Longrightarrow>
   bucketsOk h (AList.update k l m)"
  using set_update_subset [of k l m] by (fastforce simp add: bucketsOk_def)

lemma bucketsOk_delete: "bucketsOk h m \<Longrightarrow> bucketsOk h (AList.delete k m)"
  using set_delete_subset [of k m] by (fastforce simp add: bucketsOk_def)

lemma queueOk_update: "queueOk h q \<Longrightarrow> bucketsOk h m \<Longrightarrow> queueOk h (AList.update tp m q)"
  using set_update_subset [of tp m q] by (fastforce simp add: queueOk_def)

lemma queueOk_delete: "queueOk h q \<Longrightarrow> queueOk h (AList.delete tp q)"
  using set_delete_subset [of tp q] by (fastforce simp add: queueOk_def)

lemma queueOk_lookup: "queueOk h q \<Longrightarrow> map_of q tp = Some m \<Longrightarrow> bucketsOk h m"
  by (auto simp add: queueOk_def dest!: map_of_SomeD)

lemma bucketsOk_lookup:
  "bucketsOk h m \<Longrightarrow> map_of m k = Some l \<Longrightarrow> l \<noteq> [] \<and> inRange64 k \<and> (\<forall>ref \<in> set l. validRef h ref)"
  by (auto simp add: bucketsOk_def dest!: map_of_SomeD)

lemma removeRegisterTopic_wellFormed:
  "wellFormed s \<Longrightarrow> removeRegisterTopic tp s = Ok s1 \<Longrightarrow> wellFormed s1"
  by (auto simp add: removeRegisterTopic_def thenR_Ok_iff wellFormed_def
      dest!: dropRefs_wellFormed [rotated] intro: queueOk_delete)

lemma addTopic_wellFormed: "wellFormed s \<Longrightarrow> wellFormed (addTopic fl th tp register s)"
  by (auto simp add: addTopic_def Let_def wellFormed_def bucketsOk_def intro!: queueOk_update)

subsection \<open>Calls that change the queues\<close>

lemma derefTk_Ok_iff: "derefTk s a = Ok tk \<longleftrightarrow> a < length (ticketHeap s) \<and> tk = ticketHeap s ! a"
  by (auto simp add: derefTk_def)

lemma regTimeAt_Ok_iff:
  "regTimeAt tk i = Ok rt \<longleftrightarrow> 0 \<le> i \<and> i < int (length (regTime tk)) \<and> rt = regTime tk ! nat i"
  by (auto simp add: regTimeAt_def)

lemma timesOk_nth:
  "timesOk h \<Longrightarrow> a < length h \<Longrightarrow> 0 \<le> i \<Longrightarrow> i < int (length (regTime (h ! a))) \<Longrightarrow>
   inRange64 (regTime (h ! a) ! nat i)"
proof -
  assume t: "timesOk h" and a: "a < length h" and i: "0 \<le> i" "i < int (length (regTime (h ! a)))"
  from a have "h ! a \<in> set h" by simp
  moreover from i have "regTime (h ! a) ! nat i \<in> set (regTime (h ! a))" by simp
  ultimately show ?thesis using t by (simp add: timesOk_def)
qed

lemma enqueueRef_wellFormed:
  assumes wf: "wellFormed s"
    and lt: "ta < length (ticketHeap s)"
    and rt: "regTimeAt (ticketHeap s ! ta) topicIdx = Ok rt"
    and en: "enqueueRef ta topicIdx tp rt s = Ok s1"
  shows "wellFormed s1"
proof -
  define h where "h = ticketHeap s"
  define bucket where "bucket = quo rt ticketTimeBucketLen"
  define m where "m = (case map_of (tickets s) tp of None \<Rightarrow> [] | Some m \<Rightarrow> m)"
  define list where "list = (case map_of m bucket of None \<Rightarrow> [] | Some l \<Rightarrow> l)"
  define m1 where "m1 = AList.update bucket (list @ [\<lparr>tkt = ta, idx = topicIdx\<rparr>]) m"
  define s0 where "s0 = s\<lparr>tickets := AList.update tp m1 (tickets s)\<rparr>"
  from wf have q: "queueOk h (tickets s)" and t: "timesOk h"
    by (simp_all add: wellFormed_def h_def)
  have bm: "bucketsOk h m"
  proof (cases "map_of (tickets s) tp")
    case None
    then show ?thesis by (simp add: m_def bucketsOk_def)
  next
    case (Some m0)
    with queueOk_lookup [OF q Some] show ?thesis by (simp add: m_def)
  qed
  have vl: "\<forall>ref \<in> set list. validRef h ref"
  proof (cases "map_of m bucket")
    case None
    then show ?thesis by (simp add: list_def)
  next
    case (Some l0)
    with bucketsOk_lookup [OF bm Some] show ?thesis by (simp add: list_def)
  qed
  from rt have i: "0 \<le> topicIdx" "topicIdx < int (length (regTime (h ! ta)))"
    and rteq: "rt = regTime (h ! ta) ! nat topicIdx"
    by (simp_all add: regTimeAt_Ok_iff h_def)
  have vr: "validRef h \<lparr>tkt = ta, idx = topicIdx\<rparr>"
    using lt i by (simp add: validRef_def h_def)
  have rb: "inRange64 bucket"
    unfolding bucket_def rteq using timesOk_nth [OF t] lt i by (auto simp add: h_def intro: inRange64_quo)
  have "bucketsOk h m1"
    unfolding m1_def using bm rb vl vr by (intro bucketsOk_update) auto
  with q have "queueOk h (AList.update tp m1 (tickets s))" by (rule queueOk_update)
  with wf have wf0: "wellFormed s0" by (simp add: wellFormed_def s0_def h_def)
  have lt0: "ta < length (ticketHeap s0)" using lt by (simp add: s0_def)
  from en have s1: "s1 = s0\<lparr>ticketHeap := (ticketHeap s0)[ta := (ticketHeap s0 ! ta)\<lparr>refCnt := wrap64 (refCnt (ticketHeap s0 ! ta) + 1)\<rparr>]\<rparr>"
    by (auto simp add: enqueueRef_def Let_def thenR_Ok_iff derefTk_Ok_iff s0_def m1_def list_def m_def bucket_def)
  show ?thesis unfolding s1 by (rule wellFormed_heap_update [OF wf0 lt0]) simp
qed

lemma collectTicket_wellFormed:
  "wellFormed s \<Longrightarrow> collectTicket fl r now localTime ta tp topicIdx s = Ok s1 \<Longrightarrow> wellFormed s1"
  by (auto simp add: collectTicket_def thenR_Ok_iff derefTk_Ok_iff
      split: option.splits if_splits intro: enqueueRef_wellFormed)

lemma collectTickets_wellFormed:
  "wellFormed s \<Longrightarrow> collectTickets fl rnd now localTime ta tps topicIdx s = Ok s1 \<Longrightarrow> wellFormed s1"
proof (induction tps arbitrary: topicIdx s)
  case Nil
  then show ?case by simp
next
  case (Cons tp tps)
  then show ?case by (auto simp add: thenR_Ok_iff dest: collectTicket_wellFormed)
qed

lemma lowerBucket_wellFormed: "wellFormed s \<Longrightarrow> wellFormed (lowerBucket localTime s)"
  by (simp add: lowerBucket_def Let_def wellFormed_def)

lemma keepNode_wellFormed: "wellFormed s \<Longrightarrow> keepNode ta s = Ok s1 \<Longrightarrow> wellFormed s1"
  by (auto simp add: keepNode_def thenR_Ok_iff wellFormed_def split: if_splits)

lemma addTicket_wellFormed:
  assumes wf: "wellFormed s" and ad: "addTicket fl rnd now localTime ph ta s = Ok s1"
  shows "wellFormed s1"
proof -
  have fr: "frame s x \<Longrightarrow> wellFormed x" for x using wf by (rule wellFormed_frame [rotated])
  have tl: "wellFormed s1"
    if "frame s x" "collectTickets fl rnd now localTime ta tps 0 (lowerBucket localTime x) = Ok y"
       "keepNode ta y = Ok s1" for x y tps
    using that fr lowerBucket_wellFormed collectTickets_wellFormed keepNode_wellFormed by blast
  from ad wf show ?thesis
    by (auto simp add: addTicket_def thenR_Ok_iff Let_def
        split: option.splits if_splits
        dest!: adjustWithTicket_frame intro: fr tl)
qed

lemma findRef_Some: "findRef l ta = Some i \<Longrightarrow> i < length l"
  by (induction l arbitrary: i) (auto split: if_splits)

lemma removeAt_bucketsOk:
  assumes bm: "bucketsOk h m" and l: "map_of m b = Some l"
    and c: "c \<longrightarrow> take i l @ drop (Suc i) l \<noteq> []"
  shows "bucketsOk h (if c then AList.update b (take i l @ drop (Suc i) l) m else AList.delete b m)"
proof -
  from bucketsOk_lookup [OF bm l] have r: "inRange64 b" and v: "\<forall>ref \<in> set l. validRef h ref" by simp_all
  have "\<forall>ref \<in> set (take i l @ drop (Suc i) l). validRef h ref"
    using v by (auto dest: in_set_takeD in_set_dropD)
  then show ?thesis using bm r c by (simp add: bucketsOk_update bucketsOk_delete)
qed

lemma ticketRegistered_wellFormed:
  assumes wf: "wellFormed s" and tr: "ticketRegistered ref s = Ok s1"
  shows "wellFormed s1"
proof -
  define h where "h = ticketHeap s"
  from wf have q: "queueOk h (tickets s)" by (simp add: wellFormed_def h_def)
  have cl: "wellFormed x \<Longrightarrow> wellFormed (x\<lparr>nextTicketCached := None\<rparr>)" for x :: "'a ticketStore"
    by (simp add: wellFormed_def)
  have up: "wellFormed (s\<lparr>tickets := AList.update tp m1 (tickets s)\<rparr>)" if "bucketsOk h m1" for tp m1
    using wf that q by (auto simp add: wellFormed_def h_def intro: queueOk_update)
  have fin: "wellFormed (y\<lparr>nextTicketCached := None\<rparr>)"
    if "map_of (tickets s) tp = Some m" "map_of m b = Some l"
       "dropRef ta (s\<lparr>tickets := AList.update tp (if 0 < i \<and> l \<noteq> [] \<or> \<not> length l \<le> Suc i
                      then AList.update b (take i l @ drop (Suc i) l) m else AList.delete b m) (tickets s)\<rparr>) = Ok y"
       for tp m b l i ta y
  proof -
    have "0 < i \<and> l \<noteq> [] \<or> \<not> length l \<le> Suc i \<longrightarrow> take i l @ drop (Suc i) l \<noteq> []"
      by auto
    from up [OF removeAt_bucketsOk [OF queueOk_lookup [OF q that(1)] that(2) this]] that(3)
    show ?thesis by (auto intro!: cl dest: dropRef_wellFormed [rotated])
  qed
  from tr wf show ?thesis
    apply (auto simp add: ticketRegistered_def thenR_Ok_iff Let_def split: option.splits)
    apply (rule fin, assumption, assumption, assumption)
    done
qed

subsection \<open>The bucket scan\<close>

lemma topicRegTime_valid:
  "validRef (ticketHeap s) ref \<Longrightarrow>
   topicRegTime s ref = Ok (regTime (ticketHeap s ! tkt ref) ! nat (idx ref))"
  by (simp add: validRef_def topicRegTime_def derefTk_def regTimeAt_def)

lemma leastRef_Ok:
  assumes "\<forall>ref \<in> set l. validRef (ticketHeap s) ref"
    and "\<forall>r. nt = Some r \<longrightarrow> validRef (ticketHeap s) r"
  shows "\<exists>nt1. leastRef s l nt = Ok nt1 \<and> (\<forall>r. nt1 = Some r \<longrightarrow> validRef (ticketHeap s) r) \<and>
               (nt \<noteq> None \<or> l \<noteq> [] \<longrightarrow> nt1 \<noteq> None) \<and>
               (\<forall>r. nt1 = Some r \<longrightarrow> r \<in> set l \<or> nt = Some r)"
  using assms
proof (induction l arbitrary: nt)
  case Nil
  then show ?case by simp
next
  case (Cons ref l)
  have v: "validRef (ticketHeap s) ref" using Cons.prems(1) by simp
  have a: "\<exists>nt1. leastRef s l (Some x) = Ok nt1 \<and> (\<forall>r. nt1 = Some r \<longrightarrow> validRef (ticketHeap s) r) \<and>
             nt1 \<noteq> None \<and> (\<forall>r. nt1 = Some r \<longrightarrow> r \<in> set l \<or> r = x)"
    if "validRef (ticketHeap s) x" for x
    using Cons.IH [of "Some x"] Cons.prems(1) that by auto
  show ?case
  proof (cases nt)
    case None
    with a [OF v] show ?thesis by auto
  next
    case (Some x)
    with Cons.prems(2) have vx: "validRef (ticketHeap s) x" by simp
    from a [OF v] a [OF vx] show ?thesis
      by (auto simp add: Some topicRegTime_valid [OF v] topicRegTime_valid [OF vx])
  qed
qed

lemma scanBucket_Ok:
  assumes "queueOk (ticketHeap s) q"
    and "\<forall>r. nt = Some r \<longrightarrow> validRef (ticketHeap s) r"
  shows "\<exists>e1 nt1. scanBucket s b q (e, nt) = Ok (e1, nt1) \<and>
           (\<forall>r. nt1 = Some r \<longrightarrow> validRef (ticketHeap s) r) \<and>
           (e1 \<longleftrightarrow> e \<and> (\<forall>(tp, m) \<in> set q. m = [])) \<and>
           (nt \<noteq> None \<or> (\<exists>(tp, m) \<in> set q. b \<in> fst ` set m) \<longrightarrow> nt1 \<noteq> None) \<and>
           (\<forall>r. nt1 = Some r \<longrightarrow> queued q r \<or> nt = Some r)"
  using assms
proof (induction q arbitrary: e nt)
  case Nil
  then show ?case by simp
next
  case (Cons p q)
  obtain tp m where p: "p = (tp, m)" by (cases p)
  from Cons.prems(1) have bm: "bucketsOk (ticketHeap s) m" and q: "queueOk (ticketHeap s) q"
    by (simp_all add: queueOk_def p)
  note ih = Cons.IH [OF q]
  have mono: "queued q r \<Longrightarrow> queued (p # q) r" for r by (auto simp add: queued_def)
  show ?case
  proof (cases "m = []")
    case True
    with ih [OF Cons.prems(2), of e] mono show ?thesis by (auto simp add: p)
  next
    case False
    show ?thesis
    proof (cases "map_of m b")
      case None
      then have "b \<notin> fst ` set m" by (simp add: map_of_eq_None_iff)
      with ih [OF Cons.prems(2), of False] False None mono show ?thesis by (auto simp add: p)
    next
      case (Some l)
      from bucketsOk_lookup [OF bm Some] have l: "l \<noteq> []" "\<forall>ref \<in> set l. validRef (ticketHeap s) ref"
        by simp_all
      from leastRef_Ok [OF l(2) Cons.prems(2)] l(1) obtain x where
        x: "leastRef s l nt = Ok (Some x)" "validRef (ticketHeap s) x" "x \<in> set l \<or> nt = Some x"
        by auto
      have "(b, l) \<in> set m" using Some by (rule map_of_SomeD)
      then have qx: "x \<in> set l \<Longrightarrow> queued (p # q) x" by (auto simp add: queued_def p)
      from ih [of "Some x" False] x(2) obtain e1 nt1 where
        r: "scanBucket s b q (False, Some x) = Ok (e1, nt1)"
           "\<forall>r. nt1 = Some r \<longrightarrow> validRef (ticketHeap s) r" "\<not> e1" "nt1 \<noteq> None"
           "\<forall>r. nt1 = Some r \<longrightarrow> queued q r \<or> r = x"
        by auto
      have "scanBucket s b (p # q) (e, nt) = Ok (e1, nt1)"
        using False Some x(1) r(1) by (simp add: p)
      moreover have "\<forall>r. nt1 = Some r \<longrightarrow> queued (p # q) r \<or> nt = Some r"
        using r(5) x(3) qx mono by blast
      ultimately show ?thesis using r(2,3,4) False by (auto simp add: p)
    qed
  qed
qed

lemma scanFrom_step:
  assumes q: "queueOk (ticketHeap s) (tickets s)"
  shows "((\<forall>(tp, m) \<in> set (tickets s). m = []) \<and> scanFrom now s bucket = Some (Ok ((None, 0), s))) \<or>
         (\<exists>ref. queued (tickets s) ref \<and> validRef (ticketHeap s) ref \<and>
            scanFrom now s bucket =
              Some (Ok ((Some ref, wrap64 (regTime (ticketHeap s ! tkt ref) ! nat (idx ref) - now)),
                        s\<lparr>nextTicketCached := Some ref\<rparr>))) \<or>
         ((\<exists>(tp, m) \<in> set (tickets s). m \<noteq> []) \<and>
          (\<forall>(tp, m) \<in> set (tickets s). bucket \<notin> fst ` set m) \<and>
          scanFrom now s bucket =
            scanFrom now (s\<lparr>lastBucketFetched := bucket\<rparr>) (wrap64 (bucket + 1)))"
proof -
  from scanBucket_Ok [OF q, of None bucket True] obtain e1 nt1 where
    sb: "scanBucket s bucket (tickets s) (True, None) = Ok (e1, nt1)"
    and v: "\<forall>r. nt1 = Some r \<longrightarrow> validRef (ticketHeap s) r"
    and e: "e1 \<longleftrightarrow> (\<forall>(tp, m) \<in> set (tickets s). m = [])"
    and f: "(\<exists>(tp, m) \<in> set (tickets s). bucket \<in> fst ` set m) \<longrightarrow> nt1 \<noteq> None"
    and g: "\<forall>r. nt1 = Some r \<longrightarrow> queued (tickets s) r"
    by auto
  show ?thesis
  proof (cases e1)
    case True
    have "scanFrom now s bucket = Some (Ok ((None, 0), s))"
      using sb True by (subst scanFrom.simps) simp
    with True e show ?thesis by blast
  next
    case False
    show ?thesis
    proof (cases nt1)
      case None
      with f have "\<forall>(tp, m) \<in> set (tickets s). bucket \<notin> fst ` set m" by blast
      moreover from False e have "\<exists>(tp, m) \<in> set (tickets s). m \<noteq> []" by blast
      moreover have "scanFrom now s bucket =
          scanFrom now (s\<lparr>lastBucketFetched := bucket\<rparr>) (wrap64 (bucket + 1))"
        using sb False None by (subst scanFrom.simps) simp
      ultimately show ?thesis by blast
    next
      case (Some ref)
      with v g have vr: "validRef (ticketHeap s) ref" and qr: "queued (tickets s) ref" by simp_all
      have "scanFrom now s bucket =
          Some (Ok ((Some ref, wrap64 (regTime (ticketHeap s ! tkt ref) ! nat (idx ref) - now)),
                    s\<lparr>nextTicketCached := Some ref\<rparr>))"
        using sb False Some by (subst scanFrom.simps) (simp add: topicRegTime_valid [OF vr])
      with vr qr show ?thesis by blast
    qed
  qed
qed

lemma scanFrom_finds_inRange:
  assumes q: "queueOk h q" and ne: "\<exists>(tp, m) \<in> set q. m \<noteq> []"
  shows "tickets s = q \<Longrightarrow> ticketHeap s = h \<Longrightarrow> inRange64 bucket \<Longrightarrow>
         \<exists>ref b. queued q ref \<and> validRef h ref \<and>
            scanFrom now s bucket =
              Some (Ok ((Some ref, wrap64 (regTime (h ! tkt ref) ! nat (idx ref) - now)),
                        s\<lparr>lastBucketFetched := b, nextTicketCached := Some ref\<rparr>))"
proof -
  from ne obtain tp m where tm: "(tp, m) \<in> set q" "m \<noteq> []" by blast
  then obtain k l where kl: "(k, l) \<in> set m" by (cases m) auto
  from q tm(1) kl have rk: "inRange64 k" by (auto simp add: queueOk_def bucketsOk_def)
  show "tickets s = q \<Longrightarrow> ticketHeap s = h \<Longrightarrow> inRange64 bucket \<Longrightarrow> ?thesis"
  proof (induction "nat ((k - bucket) mod 2 ^ 64)" arbitrary: bucket s rule: less_induct)
    case less
    from less.prems(1,2) q have qs: "queueOk (ticketHeap s) (tickets s)" by simp
    from scanFrom_step [OF qs, of now bucket] show ?case
    proof (elim disjE conjE exE)
      assume "\<forall>(tp, m) \<in> set (tickets s). m = []"
      with tm less.prems(1) show ?thesis by auto
    next
      fix ref
      assume "queued (tickets s) ref" "validRef (ticketHeap s) ref"
        "scanFrom now s bucket =
              Some (Ok ((Some ref, wrap64 (regTime (ticketHeap s ! tkt ref) ! nat (idx ref) - now)),
                        s\<lparr>nextTicketCached := Some ref\<rparr>))"
      moreover have "s\<lparr>nextTicketCached := Some ref\<rparr> =
          s\<lparr>lastBucketFetched := lastBucketFetched s, nextTicketCached := Some ref\<rparr>" by simp
      ultimately show ?thesis using less.prems(1,2) by metis
    next
      assume nk: "\<forall>(tp, m) \<in> set (tickets s). bucket \<notin> fst ` set m"
        and eq: "scanFrom now s bucket =
            scanFrom now (s\<lparr>lastBucketFetched := bucket\<rparr>) (wrap64 (bucket + 1))"
      from nk tm(1) kl less.prems(1) have "bucket \<noteq> k" by force
      from scan_measure [OF less.prems(3) rk this]
      have "\<exists>ref b. queued q ref \<and> validRef h ref \<and>
            scanFrom now (s\<lparr>lastBucketFetched := bucket\<rparr>) (wrap64 (bucket + 1)) =
              Some (Ok ((Some ref, wrap64 (regTime (h ! tkt ref) ! nat (idx ref) - now)),
                        s\<lparr>lastBucketFetched := bucket\<rparr>\<lparr>lastBucketFetched := b, nextTicketCached := Some ref\<rparr>))"
        by (rule less.hyps) (simp_all add: less.prems inRange64_wrap64)
      with eq show ?thesis by auto
    qed
  qed
qed

lemma scanFrom_returns:
  assumes q: "queueOk (ticketHeap s) (tickets s)"
  shows "((\<forall>(tp, m) \<in> set (tickets s). m = []) \<and> scanFrom now s bucket = Some (Ok ((None, 0), s))) \<or>
         ((\<exists>(tp, m) \<in> set (tickets s). m \<noteq> []) \<and>
          (\<exists>ref b. queued (tickets s) ref \<and> validRef (ticketHeap s) ref \<and>
            scanFrom now s bucket =
              Some (Ok ((Some ref, wrap64 (regTime (ticketHeap s ! tkt ref) ! nat (idx ref) - now)),
                        s\<lparr>lastBucketFetched := b, nextTicketCached := Some ref\<rparr>))))"
proof (cases "\<exists>(tp, m) \<in> set (tickets s). m \<noteq> []")
  case False
  with scanFrom_step [OF q, of now bucket] show ?thesis by (auto simp add: queued_def)
next
  case True
  from scanFrom_step [OF q, of now bucket] show ?thesis
  proof (elim disjE conjE exE)
    assume "\<forall>(tp, m) \<in> set (tickets s). m = []"
    with True show ?thesis by auto
  next
    fix ref
    assume "queued (tickets s) ref" "validRef (ticketHeap s) ref"
      "scanFrom now s bucket =
            Some (Ok ((Some ref, wrap64 (regTime (ticketHeap s ! tkt ref) ! nat (idx ref) - now)),
                      s\<lparr>nextTicketCached := Some ref\<rparr>))"
    moreover have "s\<lparr>nextTicketCached := Some ref\<rparr> =
        s\<lparr>lastBucketFetched := lastBucketFetched s, nextTicketCached := Some ref\<rparr>" by simp
    ultimately show ?thesis using True by metis
  next
    assume eq: "scanFrom now s bucket =
            scanFrom now (s\<lparr>lastBucketFetched := bucket\<rparr>) (wrap64 (bucket + 1))"
    from scanFrom_finds_inRange [OF q True, of "s\<lparr>lastBucketFetched := bucket\<rparr>" "wrap64 (bucket + 1)" now]
    show ?thesis using True by (auto simp add: eq inRange64_wrap64)
  qed
qed

lemma nextRegisterableTicket_result:
  assumes wf: "wellFormed s"
  shows "\<exists>r w s1. nextRegisterableTicket now s = Ok ((r, w), s1) \<and> wellFormed s1 \<and>
     (case nextTicketCached s of
        Some c \<Rightarrow> r = Some c \<and> s1 = s
      | None \<Rightarrow>
          if \<forall>(tp, m) \<in> set (tickets s). m = [] then r = None \<and> w = 0 \<and> s1 = s
          else \<exists>ref b. r = Some ref \<and> queued (tickets s) ref \<and>
                 s1 = s\<lparr>lastBucketFetched := b, nextTicketCached := Some ref\<rparr>) \<and>
     (\<forall>ref. r = Some ref \<longrightarrow>
        (\<exists>rt. topicRegTime s ref = Ok rt \<and> w = wrap64 (rt - now)))"
proof (cases "nextTicketCached s")
  case None
  from wf have q: "queueOk (ticketHeap s) (tickets s)" by (simp add: wellFormed_def)
  from scanFrom_returns [OF q, of now "lastBucketFetched s"] show ?thesis
  proof (elim disjE conjE exE)
    assume "\<forall>(tp, m) \<in> set (tickets s). m = []"
      "scanFrom now s (lastBucketFetched s) = Some (Ok ((None, 0), s))"
    with wf None show ?thesis by (simp add: nextRegisterableTicket_def)
  next
    fix ref b
    assume ne: "\<exists>(tp, m) \<in> set (tickets s). m \<noteq> []"
      and qr: "queued (tickets s) ref" and vr: "validRef (ticketHeap s) ref"
      and sc: "scanFrom now s (lastBucketFetched s) =
              Some (Ok ((Some ref, wrap64 (regTime (ticketHeap s ! tkt ref) ! nat (idx ref) - now)),
                        s\<lparr>lastBucketFetched := b, nextTicketCached := Some ref\<rparr>))"
    have "wellFormed (s\<lparr>lastBucketFetched := b, nextTicketCached := Some ref\<rparr>)"
      using wf vr by (simp add: wellFormed_def)
    moreover from ne have "\<not> (\<forall>(tp, m) \<in> set (tickets s). m = [])" by blast
    ultimately show ?thesis
      using None sc qr topicRegTime_valid [OF vr]
      by (auto simp add: nextRegisterableTicket_def)
  qed
next
  case (Some c)
  with wf have "validRef (ticketHeap s) c" by (simp add: wellFormed_def)
  with wf Some show ?thesis
    by (simp add: nextRegisterableTicket_def topicRegTime_valid)
qed

lemma nextRegisterableTicket_returns:
  assumes wf: "wellFormed s"
  shows "\<exists>r s1. nextRegisterableTicket now s = Ok (r, s1) \<and> wellFormed s1"
  using nextRegisterableTicket_result [OF wf, of now] by blast

lemma wellFormed_new: "wellFormed newTicketStore"
  by (simp add: wellFormed_def newTicketStore_def queueOk_def timesOk_def)

lemma pongToTicket_times:
  "pongToTicket localTime tps n wps hashOk raw = Inr tk \<Longrightarrow> \<forall>t \<in> set (regTime tk). inRange64 t"
  by (auto simp add: pongToTicket_def inRange64_wrap64 split: if_splits)

lemma wellFormed_alloc:
  assumes wf: "wellFormed s" and t: "\<forall>t \<in> set (regTime tk). inRange64 t"
  shows "wellFormed (s\<lparr>ticketHeap := ticketHeap s @ [tk]\<rparr>)"
proof -
  have "heapLe (ticketHeap s) (ticketHeap s @ [tk])" by (simp add: heapLe_def nth_append)
  with wf t show ?thesis
    by (auto simp add: wellFormed_def timesOk_def dest: queueOk_heapLe validRef_heapLe)
qed

lemma call_wellFormed: "wellFormed s \<Longrightarrow> call fl th c s = Ok s1 \<Longrightarrow> wellFormed s1"
proof (cases c)
  case (PongToTicket localTime tps n wps hashOk raw)
  assume "wellFormed s" "call fl th c s = Ok s1"
  then show ?thesis
    by (auto simp add: PongToTicket split: sum.splits
        dest: pongToTicket_times intro: wellFormed_alloc)
next
  case (NextRegisterableTicket now)
  assume "wellFormed s" "call fl th c s = Ok s1"
  with nextRegisterableTicket_returns [of s now] show ?thesis
    by (auto simp add: NextRegisterableTicket)
qed (auto intro: addTopic_wellFormed addTicket_wellFormed ticketRegistered_wellFormed
      removeRegisterTopic_wellFormed wellFormed_frame [rotated] dest: registerLookupDone_frame)

lemma run_wellFormed: "wellFormed s \<Longrightarrow> run fl th cs s = Ok s1 \<Longrightarrow> wellFormed s1"
proof (induction cs arbitrary: s)
  case Nil
  then show ?case by simp
next
  case (Cons c cs)
  then show ?case by (auto simp add: thenR_Ok_iff dest: call_wellFormed)
qed




text \<open>
  Two remarks on the scan. With the calls \<open>addTopic\<close>, \<open>addTicket\<close>, \<open>ticketRegistered\<close> and
  \<open>removeRegisterTopic\<close> alone no ticket is ever queued, because \<open>addTicket\<close> collects a
  ticket only from a node that \<open>registerLookupDone\<close> has recorded in \<open>nodeLastReq\<close>: after such
  calls \<open>nextRegisterableTicket\<close> returns \<open>nil\<close> at its first pass. And on a store with a
  ticket queued in bucket 2 the scan from bucket 0 passes two empty buckets and returns
  that ticket.
\<close>

lemma adjustTopic_radius: "adjustTopic fl ta i tp tt s = Ok s1 \<Longrightarrow> \<exists>rs. s1 = s\<lparr>radius_s := rs\<rparr>"
  by (auto simp add: adjustTopic_def thenR_Ok_iff)

lemma adjustIfConverging_radius:
  "adjustIfConverging fl ta tp i s = Ok s1 \<Longrightarrow> \<exists>rs. s1 = s\<lparr>radius_s := rs\<rparr>"
proof -
  have "s = s\<lparr>radius_s := radius_s s\<rparr>" by simp
  then have "\<exists>rs. s = s\<lparr>radius_s := rs\<rparr>" ..
  moreover assume "adjustIfConverging fl ta tp i s = Ok s1"
  ultimately show ?thesis
    by (auto simp add: adjustIfConverging_def thenR_Ok_iff
        split: option.splits if_splits dest: adjustTopic_radius)
qed

lemma adjustConverging_radius:
  "adjustConverging fl ta tps i s = Ok s1 \<Longrightarrow> \<exists>rs. s1 = s\<lparr>radius_s := rs\<rparr>"
proof (induction tps arbitrary: i s)
  case Nil
  have "s = s\<lparr>radius_s := radius_s s\<rparr>" by simp
  with Nil show ?case by (metis adjustConverging.simps(1) result.inject(1))
next
  case (Cons tp tps)
  from Cons.prems obtain s0 where a: "adjustIfConverging fl ta tp i s = Ok s0"
    and b: "adjustConverging fl ta tps (i + 1) s0 = Ok s1"
    by (auto simp add: thenR_Ok_iff)
  from adjustIfConverging_radius [OF a] obtain rs0 where "s0 = s\<lparr>radius_s := rs0\<rparr>" ..
  moreover from Cons.IH [OF b] obtain rs1 where "s1 = s0\<lparr>radius_s := rs1\<rparr>" ..
  ultimately have "s1 = s\<lparr>radius_s := rs1\<rparr>" by simp
  then show ?case ..
qed

lemma adjustWithTicket_radius:
  assumes "adjustWithTicket fl ta i oc s = Ok s1"
  shows "\<exists>rs. s1 = s\<lparr>radius_s := rs\<rparr>"
proof -
  have "s = s\<lparr>radius_s := radius_s s\<rparr>" by simp
  then have "\<exists>rs. s = s\<lparr>radius_s := rs\<rparr>" ..
  with assms show ?thesis
    by (auto simp add: adjustWithTicket_def thenR_Ok_iff
        split: option.splits if_splits dest: adjustConverging_radius adjustTopic_radius)
qed

lemma nothingQueued_new: "nothingQueued newTicketStore"
  by (simp add: nothingQueued_def newTicketStore_def)

lemma listedCall_nothingQueued:
  assumes l: "listedCall c" and n: "nothingQueued s" and c: "call fl th c s = Ok s1"
  shows "nothingQueued s1"
proof (cases c)
  case (PongToTicket localTime tps nd wps hashOk raw)
  with n c show ?thesis by (auto simp add: nothingQueued_def split: sum.splits)
next
  case (AddTopic tp register)
  with c have s1: "s1 = addTopic fl th tp register s" by simp
  have "nodeLastReq s1 = nodeLastReq s" "nextTicketCached s1 = nextTicketCached s"
    "tickets s1 = tickets s \<or> tickets s1 = AList.update tp [] (tickets s)"
    by (simp_all add: s1 addTopic_def Let_def)
  with n show ?thesis
    using set_update_subset [of tp "[]" "tickets s"]
    by (auto simp add: nothingQueued_def)
next
  case (AddTicket rnd now localTime ph ta)
  with n c have "adjustWithTicket fl ta (- 1) True s = Ok s1 \<or> s1 = s"
    by (auto simp add: nothingQueued_def addTicket_def thenR_Ok_iff split: if_splits)
  with n show ?thesis by (auto simp add: nothingQueued_def dest!: adjustWithTicket_radius)
next
  case (TicketRegistered ref)
  with c have tr: "ticketRegistered ref s = Ok s1" by simp
  then obtain tk tp where tk: "derefTk s (tkt ref) = Ok tk" and tp: "topicAt tk (idx ref) = Ok tp"
    by (auto simp add: ticketRegistered_def thenR_Ok_iff)
  have "s1 = s"
  proof (cases "map_of (tickets s) tp")
    case None
    with tr show ?thesis by (simp add: ticketRegistered_def tk tp)
  next
    case (Some m)
    with n map_of_SomeD [OF Some] have "map_of (tickets s) tp = Some []"
      by (auto simp add: nothingQueued_def)
    with tr show ?thesis by (simp add: ticketRegistered_def tk tp Let_def thenR_Ok_iff)
  qed
  with n show ?thesis by simp
next
  case (RemoveRegisterTopic tp)
  have e: "m = []" if "map_of (tickets s) tp = Some m" for m
    using n map_of_SomeD [OF that] by (auto simp add: nothingQueued_def)
  from RemoveRegisterTopic c have "s1 = s\<lparr>tickets := AList.delete tp (tickets s)\<rparr>"
    by (auto simp add: removeRegisterTopic_def thenR_Ok_iff split: option.splits dest!: e)
  with n show ?thesis
    using set_delete_subset [of tp "tickets s"] by (auto simp add: nothingQueued_def)
next
  case (RegisterLookupDone ping target tp ns)
  with l show ?thesis by simp
next
  case (NextRegisterableTicket now)
  with l show ?thesis by simp
qed

lemma listed_calls_queue_nothing:
  "\<forall>c \<in> set cs. listedCall c \<Longrightarrow> nothingQueued s \<Longrightarrow> run fl th cs s = Ok s1 \<Longrightarrow> nothingQueued s1"
proof (induction cs arbitrary: s)
  case Nil
  then show ?case by simp
next
  case (Cons c cs)
  then show ?case by (auto simp add: thenR_Ok_iff dest: listedCall_nothingQueued)
qed

lemma listed_calls_return_nil:
  assumes "\<forall>c \<in> set cs. listedCall c" and "run fl th cs newTicketStore = Ok s"
  shows "nextRegisterableTicket now s = Ok ((None, 0), s)"
proof -
  from listed_calls_queue_nothing [OF assms(1) nothingQueued_new assms(2)]
  have n: "nothingQueued s" .
  from nextRegisterableTicket_result [OF run_wellFormed [OF wellFormed_new assms(2)], of now] n
  show ?thesis by (auto simp add: nothingQueued_def)
qed

lemma scan_reaches_queued_ticket_ex:
  "nextRegisterableTicket 100000000000 store_queued_ex =
     Ok ((Some \<lparr>tkt = 0, idx = 0\<rparr>, 30000000000),
         store_queued_ex\<lparr>lastBucketFetched := 1, nextTicketCached := Some \<lparr>tkt = 0, idx = 0\<rparr>\<rparr>)"
  by (simp add: nextRegisterableTicket_def store_queued_ex_def newTicketStore_def scanFrom.simps
      topicRegTime_def derefTk_def regTimeAt_def wrap64_def)




end
